theory Spec2Isabelle
  imports Complex_Main "HOL-Library.Sublist" "HOL-Library.Log_Nat"
begin

section \<open>Strings\<close>

text \<open>
  The descriptions, type hints and keywords of the analyzer are JavaScript strings. They
  are modelled as \<^typ>\<open>string\<close>, one \<^typ>\<open>char\<close> per code unit, restricted to the
  ASCII range: every keyword of the rule table is ASCII, and \<open>toLowerCase\<close> is the
  ASCII lower-casing (letters \<open>A\<close> to \<open>Z\<close> move by 32, every other character is kept).
\<close>

definition toLowerCaseChar :: "char \<Rightarrow> char" where
  "toLowerCaseChar c =
     (if 65 \<le> (of_char c :: nat) \<and> (of_char c :: nat) \<le> 90
      then char_of ((of_char c :: nat) + 32) else c)"

definition toLowerCase :: "string \<Rightarrow> string" where
  "toLowerCase s = map toLowerCaseChar s"

text \<open>
  \<open>s.includes(k)\<close> of the source: \<open>k\<close> occurs in \<open>s\<close> as a contiguous run of
  characters. The scan tries every start position of \<open>s\<close> from the left.
\<close>

fun str_includes :: "string \<Rightarrow> string \<Rightarrow> bool" where
  "str_includes [] k = (k = [])"
| "str_includes (c # s) k = (prefix k (c # s) \<or> str_includes s k)"

section \<open>Category rule table\<close>

text \<open>
  \<open>CATEGORY_RULES\<close> of \<open>page.tsx\<close>: an object literal whose keys are the nine keyword
  categories. \<open>Object.entries\<close> enumerates string keys in the order of the literal, so
  the table is an association list in declaration order.
\<close>

definition food_keywords :: "string list" where
  "food_keywords =
    [''restaurant'', ''cafe'', ''coffee'', ''pizza'', ''burger'', ''food'',
     ''grocery'', ''supermarket'', ''mcdonalds'', ''kfc'', ''subway'', ''starbucks'',
     ''dunkin'', ''uber eats'', ''doordash'', ''grubhub'', ''deliveroo'',
     ''just eat'', ''takeaway'', ''dining'', ''lunch'', ''dinner'', ''breakfast'',
     ''meal'', ''kitchen'', ''bakery'', ''deli'', ''market'', ''fresh'', ''organic'']"

definition shopping_keywords :: "string list" where
  "shopping_keywords =
    [''amazon'', ''ebay'', ''walmart'', ''target'', ''costco'', ''mall'', ''store'',
     ''shop'', ''retail'', ''clothing'', ''fashion'', ''shoes'', ''electronics'',
     ''apple'', ''best buy'', ''home depot'', ''lowes'', ''ikea'', ''furniture'',
     ''department'', ''outlet'', ''boutique'', ''online'', ''purchase'', ''buy'',
     ''order'', ''merchandise'', ''goods'']"

definition leisure_keywords :: "string list" where
  "leisure_keywords =
    [''netflix'', ''spotify'', ''hulu'', ''disney'', ''amazon prime'', ''youtube'',
     ''movie'', ''cinema'', ''theater'', ''entertainment'', ''game'', ''gaming'',
     ''steam'', ''playstation'', ''xbox'', ''nintendo'', ''gym'', ''fitness'',
     ''sport'', ''club'', ''membership'', ''subscription'', ''music'', ''concert'',
     ''event'', ''ticket'', ''recreation'', ''hobby'']"

definition transport_keywords :: "string list" where
  "transport_keywords =
    [''gas'', ''fuel'', ''petrol'', ''shell'', ''bp'', ''exxon'', ''chevron'',
     ''uber'', ''lyft'', ''taxi'', ''bus'', ''train'', ''metro'', ''subway'',
     ''parking'', ''toll'', ''car'', ''vehicle'', ''auto'', ''transport'', ''travel'',
     ''flight'', ''airline'', ''airport'', ''rental'', ''maintenance'', ''repair'',
     ''insurance'', ''registration'']"

definition utilities_keywords :: "string list" where
  "utilities_keywords =
    [''electric'', ''electricity'', ''gas bill'', ''water'', ''sewer'', ''internet'',
     ''wifi'', ''phone'', ''mobile'', ''cellular'', ''cable'', ''tv'', ''utility'',
     ''power'', ''energy'', ''heating'', ''cooling'', ''trash'', ''waste'',
     ''recycling'', ''telecom'', ''broadband'', ''service provider'',
     ''bill payment'', ''monthly service'']"

definition healthcare_keywords :: "string list" where
  "healthcare_keywords =
    [''doctor'', ''hospital'', ''medical'', ''pharmacy'', ''medicine'',
     ''prescription'', ''health'', ''dental'', ''dentist'', ''clinic'', ''insurance'',
     ''copay'', ''deductible'', ''therapy'', ''treatment'', ''surgery'', ''checkup'',
     ''appointment'', ''lab'', ''test'', ''x-ray'', ''mri'', ''scan'', ''emergency'',
     ''urgent care'', ''specialist'']"

definition transfer_keywords :: "string list" where
  "transfer_keywords =
    [''transfer'', ''atm'', ''withdrawal'', ''deposit'', ''bank'', ''check'',
     ''payment'', ''wire'', ''ach'', ''direct deposit'', ''payroll'', ''salary'',
     ''wage'', ''income'', ''refund'', ''reimbursement'', ''cash'', ''venmo'',
     ''paypal'', ''zelle'', ''cashapp'', ''peer'', ''p2p'', ''send'', ''receive'',
     ''balance transfer'', ''loan payment'']"

definition investment_keywords :: "string list" where
  "investment_keywords =
    [''stock'', ''stocks'', ''shares'', ''etf'', ''mutual fund'', ''investment'',
     ''brokerage'', ''robinhood'', ''etrade'', ''fidelity'', ''vanguard'', ''schwab'',
     ''buy stock'', ''sell stock'', ''dividend'', ''portfolio'', ''crypto'',
     ''bitcoin'', ''coinbase'', ''binance'', ''investment account'', ''security'',
     ''securities'', ''fund'', ''asset'', ''wealth'', ''capital gain'',
     ''capital loss'', ''acorns'', ''stash'', ''public.com'', ''m1 finance'']"

definition subscription_keywords :: "string list" where
  "subscription_keywords =
    [''subscription'', ''netflix'', ''spotify'', ''hulu'', ''disney+'',
     ''google play'', ''airtel'', ''amazon prime'', ''apple music'',
     ''youtube premium'', ''adobe'', ''microsoft 365'', ''dropbox'', ''zoom'',
     ''slack'', ''patreon'', ''onlyfans'', ''substack'', ''newspaper'', ''magazine'',
     ''membership'', ''recurring'', ''monthly fee'', ''annual fee'', ''prime'',
     ''cloud'', ''service fee'', ''auto-renew'', ''renewal'', ''subscription fee'',
     ''streaming'']"

definition CATEGORY_RULES :: "(string \<times> string list) list" where
  "CATEGORY_RULES =
    [(''food'', food_keywords),
     (''shopping'', shopping_keywords),
     (''leisure'', leisure_keywords),
     (''transport'', transport_keywords),
     (''utilities'', utilities_keywords),
     (''healthcare'', healthcare_keywords),
     (''transfer'', transfer_keywords),
     (''investment'', investment_keywords),
     (''subscription'', subscription_keywords)]"

section \<open>Classifier\<close>

text \<open>
  The inner loop of \<open>categorizeTransaction\<close>: \<open>for (const keyword of keywords)\<close>
  returns the category at the first keyword that the description includes, and falls
  through (\<open>None\<close>) when the keywords are exhausted.
\<close>

fun scanKeywords :: "string \<Rightarrow> string \<Rightarrow> string list \<Rightarrow> string option" where
  "scanKeywords desc category [] = None"
| "scanKeywords desc category (keyword # keywords) =
     (if str_includes desc keyword then Some category
      else scanKeywords desc category keywords)"

text \<open>The outer loop: \<open>for (const [category, keywords] of Object.entries(CATEGORY_RULES))\<close>.\<close>

fun scanCategories :: "string \<Rightarrow> (string \<times> string list) list \<Rightarrow> string option" where
  "scanCategories desc [] = None"
| "scanCategories desc ((category, keywords) # rules) =
     (case scanKeywords desc category keywords of
        Some c \<Rightarrow> Some c
      | None \<Rightarrow> scanCategories desc rules)"

text \<open>
  The income test on the lower-cased type hint, the condition of the first \<open>if\<close>. The
  \<open>console.log\<close> call that opens the function does not bear on the result and has no
  counterpart here.
\<close>

definition isIncomeType :: "string \<Rightarrow> bool" where
  "isIncomeType transactionType \<longleftrightarrow>
     str_includes transactionType ''credit'' \<or>
     str_includes transactionType ''deposit'' \<or>
     str_includes transactionType ''income'' \<or>
     str_includes transactionType ''salary'' \<or>
     str_includes transactionType ''refund'' \<or>
     str_includes transactionType ''interest''"

definition categorizeTransaction :: "string \<Rightarrow> string \<Rightarrow> string" where
  "categorizeTransaction description type =
     (let desc = toLowerCase description;
          transactionType = toLowerCase type
      in if isIncomeType transactionType then ''transfer''
         else (case scanCategories desc CATEGORY_RULES of
                 Some category \<Rightarrow> category
               | None \<Rightarrow> ''unknown''))"

section \<open>Data model\<close>

text \<open>
  Amounts and balances are JavaScript numbers. The definitions are polymorphic in the
  number type \<^typ>\<open>'a\<close> and ask only for the operations the source uses (\<open>0\<close>, \<open>+\<close>,
  \<open><\<close>). The number type of the program is the type \<open>double\<close> defined below; a theorem
  stated for every number type holds for it, and a theorem that needs the rounding,
  the overflow or the \<open>NaN\<close> of doubles is stated for \<open>double\<close> itself.
\<close>

record 'a RawTransaction =
  date :: string
  description :: string
  type :: string
  amount :: 'a
  balance :: "'a option"

record 'a Transaction =
  date :: string
  description :: string
  amount :: 'a
  type :: string

text \<open>
  A property of an object that holds the result of arithmetic on a missing property is
  \<open>NaN\<close> in JavaScript (\<open>undefined + x\<close>); the values of the two dictionaries of the
  analyzer are therefore numbers or \<open>NaN\<close>.
\<close>

datatype 'a number = Num 'a | NaN

type_synonym 'a dict = "(string \<times> 'a number) list"

record 'a AnalysisData =
  initial_balance :: 'a
  final_balance :: 'a
  total_income :: 'a
  total_expenditure :: 'a
  expenditure_by_category :: "'a dict"
  transaction_details :: "'a Transaction list"

text \<open>
  \<open>obj[key] += v\<close> (and \<open>obj[key]++\<close> with \<open>v = 1\<close>). An existing property is updated in
  place; a missing one reads as \<open>undefined\<close>, the sum is \<open>NaN\<close>, and the property is
  created after the existing ones (property names that are array indices, which
  JavaScript enumerates first, do not occur among the category identifiers).
\<close>

fun add_assign :: "string \<Rightarrow> 'a::plus \<Rightarrow> 'a dict \<Rightarrow> 'a dict" where
  "add_assign key v [] = [(key, NaN)]"
| "add_assign key v ((k, n) # obj) =
     (if k = key then (k, (case n of Num x \<Rightarrow> Num (x + v) | NaN \<Rightarrow> NaN)) # obj
      else (k, n) # add_assign key v obj)"

section \<open>Sorting by date\<close>

text \<open>
  \<open>new Date(s).getTime()\<close> is a function of the JavaScript runtime: the time value of
  \<open>s\<close> in milliseconds, or \<open>NaN\<close> for a string that is no date. It is a parameter
  \<open>getTime\<close> of the model, with \<open>None\<close> for \<open>NaN\<close>. The comparator of the source
  subtracts two time values, so it is \<open>NaN\<close> as soon as one of them is. Time values
  are integers; the sort uses only the sign of their difference.
\<close>

definition compareDates ::
  "(string \<Rightarrow> int option) \<Rightarrow> 'a Transaction \<Rightarrow> 'a Transaction \<Rightarrow> int option" where
  "compareDates getTime a b =
     (case (getTime (date a), getTime (date b)) of
        (Some x, Some y) \<Rightarrow> Some (x - y)
      | _ \<Rightarrow> None)"

text \<open>
  \<open>Array.prototype.sort\<close> reads a comparator result of \<open>NaN\<close> as \<open>+0\<close>, is stable, and
  places \<open>a\<close> before \<open>b\<close> when the comparator is negative. For a comparator that is a
  consistent order these rules fix the result; it is computed here by insertion from
  the right end, each element entering in front of the first element it does not
  exceed. For an inconsistent comparator (some date that does not parse) the language
  leaves the order to the implementation, and the model gives the order of this
  insertion.
\<close>

definition sortCompare :: "('b \<Rightarrow> 'b \<Rightarrow> int option) \<Rightarrow> 'b \<Rightarrow> 'b \<Rightarrow> int" where
  "sortCompare comparefn x y = (case comparefn x y of None \<Rightarrow> 0 | Some v \<Rightarrow> v)"

fun insertSorted :: "('b \<Rightarrow> 'b \<Rightarrow> int option) \<Rightarrow> 'b \<Rightarrow> 'b list \<Rightarrow> 'b list" where
  "insertSorted comparefn x [] = [x]"
| "insertSorted comparefn x (y # ys) =
     (if sortCompare comparefn x y \<le> 0 then x # y # ys
      else y # insertSorted comparefn x ys)"

fun array_sort :: "('b \<Rightarrow> 'b \<Rightarrow> int option) \<Rightarrow> 'b list \<Rightarrow> 'b list" where
  "array_sort comparefn [] = []"
| "array_sort comparefn (x # xs) = insertSorted comparefn x (array_sort comparefn xs)"

section \<open>Aggregation\<close>

definition CATEGORIES :: "string list" where
  "CATEGORIES =
     [''food'', ''shopping'', ''leisure'', ''transport'', ''utilities'',
      ''healthcare'', ''transfer'', ''investment'', ''subscription'', ''unknown'']"

text \<open>The object literal that initialises \<open>expenditureByCategory\<close> and \<open>counts\<close>.\<close>

definition zeroByCategory :: "'a::zero dict" where
  "zeroByCategory =
     [(''food'', Num 0), (''shopping'', Num 0), (''leisure'', Num 0),
      (''transport'', Num 0), (''utilities'', Num 0), (''healthcare'', Num 0),
      (''transfer'', Num 0), (''investment'', Num 0), (''subscription'', Num 0),
      (''unknown'', Num 0)]"

text \<open>The three variables that the \<open>forEach\<close> of \<open>analyzeTransactions\<close> updates.\<close>

record 'a totals =
  totalIncome :: 'a
  totalExpenditure :: 'a
  expenditureByCategory :: "'a dict"

definition processTransaction ::
  "('a::{zero,plus,ord}) totals \<Rightarrow> 'a Transaction \<Rightarrow> 'a totals" where
  "processTransaction acc transaction =
     (if amount transaction > 0
      then acc\<lparr>totalIncome := totalIncome acc + amount transaction\<rparr>
      else acc\<lparr>totalExpenditure := totalExpenditure acc + amount transaction,
               expenditureByCategory :=
                 add_assign (type transaction) (amount transaction)
                   (expenditureByCategory acc)\<rparr>)"

definition toTransaction :: "'a RawTransaction \<Rightarrow> 'a Transaction" where
  "toTransaction raw =
     \<lparr>date = RawTransaction.date raw,
      description = RawTransaction.description raw,
      amount = RawTransaction.amount raw,
      type = categorizeTransaction (RawTransaction.description raw) (RawTransaction.type raw)\<rparr>"

text \<open>
  \<open>analyzeTransactions(rawTransactions, initialBalance = 0)\<close>: the second argument is
  optional, \<open>None\<close> is the call that leaves it out.
\<close>

definition analyzeTransactions ::
  "(string \<Rightarrow> int option) \<Rightarrow> ('a::{zero,plus,ord}) RawTransaction list \<Rightarrow> 'a option
     \<Rightarrow> 'a AnalysisData" where
  "analyzeTransactions getTime rawTransactions initialBalanceArg =
     (let initialBalance = (case initialBalanceArg of None \<Rightarrow> 0 | Some b \<Rightarrow> b);
          transactions =
            array_sort (compareDates getTime) (map toTransaction rawTransactions);
          acc = foldl processTransaction
                  \<lparr>totalIncome = 0, totalExpenditure = 0,
                   expenditureByCategory = zeroByCategory\<rparr>
                  transactions;
          finalBalance = initialBalance + totalIncome acc + totalExpenditure acc
      in \<lparr>initial_balance = initialBalance,
          final_balance = finalBalance,
          total_income = totalIncome acc,
          total_expenditure = totalExpenditure acc,
          expenditure_by_category = expenditureByCategory acc,
          transaction_details = transactions\<rparr>)"

subsection \<open>Supplementary views\<close>

definition countTransaction :: "nat dict \<Rightarrow> ('a::{zero,ord}) Transaction \<Rightarrow> nat dict" where
  "countTransaction counts transaction =
     (if amount transaction < 0 then add_assign (type transaction) 1 counts
      else counts)"

definition getTransactionCounts :: "('a::{zero,ord}) Transaction list \<Rightarrow> nat dict" where
  "getTransactionCounts transactions = foldl countTransaction zeroByCategory transactions"

definition getIncomeTransactionCount :: "('a::{zero,ord}) Transaction list \<Rightarrow> nat" where
  "getIncomeTransactionCount transactions =
     length (filter (\<lambda>t. amount t > 0) transactions)"

definition getExpenditureTransactionCount :: "('a::{zero,ord}) Transaction list \<Rightarrow> nat" where
  "getExpenditureTransactionCount transactions =
     length (filter (\<lambda>t. amount t < 0) transactions)"

subsection \<open>Sum of the values of a dictionary\<close>

text \<open>
  The values are added with the addition of the number type, from the last key to the
  first and starting from \<open>0\<close>; the \<open>NaN\<close> of a missing property among them makes the
  sum \<open>NaN\<close>.
\<close>

fun number_add :: "('a::plus) number \<Rightarrow> 'a number \<Rightarrow> 'a number" where
  "number_add (Num x) (Num y) = Num (x + y)"
| "number_add _ _ = NaN"

fun sumValues :: "('a::{zero,plus}) dict \<Rightarrow> 'a number" where
  "sumValues [] = Num 0"
| "sumValues ((k, n) # obj) = number_add n (sumValues obj)"

section \<open>Shape guard of the extraction route\<close>

text \<open>
  The guard receives the result of \<open>JSON.parse\<close>, typed \<open>unknown\<close>. A parsed JSON value
  is \<open>null\<close>, a boolean, a number, a string, an array or an object with its own
  properties in order.
\<close>

datatype json =
    JNull
  | JBool bool
  | JNumber real
  | JString string
  | JArray "json list"
  | JObject "(string \<times> json) list"

text \<open>The \<open>typeof\<close> operator; \<open>None\<close> is \<open>undefined\<close>, the value of a missing property.\<close>

fun typeof :: "json option \<Rightarrow> string" where
  "typeof None = ''undefined''"
| "typeof (Some JNull) = ''object''"
| "typeof (Some (JBool b)) = ''boolean''"
| "typeof (Some (JNumber n)) = ''number''"
| "typeof (Some (JString s)) = ''string''"
| "typeof (Some (JArray xs)) = ''object''"
| "typeof (Some (JObject props)) = ''object''"

text \<open>
  Reading a named property, for the names the guard reads (\<open>date\<close>, \<open>description\<close>,
  \<open>amount\<close>, \<open>type\<close>, \<open>transactions\<close>, \<open>initial_balance\<close>): an object gives its own
  property; an array, a string, a number or a boolean has none of these names. The
  guard tests for \<open>null\<close> before every read, so the read of \<open>null\<close> (a \<open>TypeError\<close>)
  is never reached; the equation for \<open>JNull\<close> only makes the function total.
\<close>

fun getProperty :: "json \<Rightarrow> string \<Rightarrow> json option" where
  "getProperty (JObject props) name = map_of props name"
| "getProperty _ name = None"

definition isValidTransaction :: "json \<Rightarrow> bool" where
  "isValidTransaction transaction \<longleftrightarrow>
     typeof (Some transaction) = ''object'' \<and>
     transaction \<noteq> JNull \<and>
     typeof (getProperty transaction ''date'') = ''string'' \<and>
     typeof (getProperty transaction ''description'') = ''string'' \<and>
     typeof (getProperty transaction ''amount'') = ''number'' \<and>
     typeof (getProperty transaction ''type'') = ''string''"

fun isArray :: "json option \<Rightarrow> bool" where
  "isArray (Some (JArray xs)) = True"
| "isArray _ = False"

definition isValidExtractedPageData :: "json \<Rightarrow> bool" where
  "isValidExtractedPageData data =
     (if typeof (Some data) \<noteq> ''object'' \<or> data = JNull then False
      else if \<not> isArray (getProperty data ''transactions'') then False
      else let allTransactionsValid =
                 (case getProperty data ''transactions'' of
                    Some (JArray transactions) \<Rightarrow> list_all isValidTransaction transactions
                  | _ \<Rightarrow> False)
           in if \<not> allTransactionsValid then False
              else if getProperty data ''initial_balance'' \<noteq> None \<and>
                      typeof (getProperty data ''initial_balance'') \<noteq> ''number''
                   then False
              else True)"

section \<open>The behaviour the specification describes\<close>

text \<open>
  A rule matches a lower-cased description when one of its keywords is a contiguous
  part of it; the classifier is specified to return the first matching category of
  the table, and \<open>unknown\<close> when there is none.
\<close>

definition matches :: "string \<Rightarrow> string \<times> string list \<Rightarrow> bool" where
  "matches desc rule \<longleftrightarrow> list_ex (\<lambda>k. sublist k desc) (snd rule)"

definition firstMatchingCategory :: "(string \<times> string list) list \<Rightarrow> string \<Rightarrow> string" where
  "firstMatchingCategory rules desc =
     (case filter (matches desc) rules of [] \<Rightarrow> ''unknown'' | rule # _ \<Rightarrow> fst rule)"

definition INCOME_HINTS :: "string list" where
  "INCOME_HINTS = [''credit'', ''deposit'', ''income'', ''salary'', ''refund'', ''interest'']"

text \<open>
  The shape of a page as the specification words it: a record (not \<open>null\<close>, not an
  array) whose \<open>transactions\<close> is a sequence of transaction-shaped records and whose
  \<open>initial_balance\<close>, when present, is a number.
\<close>

fun isText :: "json option \<Rightarrow> bool" where
  "isText (Some (JString s)) = True"
| "isText _ = False"

fun isNumeric :: "json option \<Rightarrow> bool" where
  "isNumeric (Some (JNumber n)) = True"
| "isNumeric _ = False"

fun transactionShaped :: "json \<Rightarrow> bool" where
  "transactionShaped (JObject props) \<longleftrightarrow>
     isText (map_of props ''date'') \<and> isText (map_of props ''description'') \<and>
     isNumeric (map_of props ''amount'') \<and> isText (map_of props ''type'')"
| "transactionShaped _ \<longleftrightarrow> False"

fun pageShaped :: "json \<Rightarrow> bool" where
  "pageShaped (JObject props) \<longleftrightarrow>
     (case map_of props ''transactions'' of
        Some (JArray ts) \<Rightarrow> list_all transactionShaped ts
      | _ \<Rightarrow> False) \<and>
     (case map_of props ''initial_balance'' of
        None \<Rightarrow> True
      | Some v \<Rightarrow> isNumeric (Some v))"
| "pageShaped _ \<longleftrightarrow> False"

section \<open>JavaScript numbers as doubles\<close>

text \<open>
  The number type of the program is the IEEE 754 double. A double is a finite value,
  \<open>Infinity\<close>, \<open>-Infinity\<close> or \<open>NaN\<close>. A finite double is modelled as the rational it
  denotes; the two zeros, which \<open>==\<close>, \<open><\<close> and \<open>>\<close> do not tell apart, are one value.

  The sum of two finite doubles is the exact sum rounded to 53 significant bits, to
  the nearest value and to the even mantissa on a tie, and is infinite when the
  rounded value exceeds the largest double. An exact sum of two doubles below the
  normal range is a multiple of the smallest double and needs fewer than 53 bits, so
  rounding leaves it as it is, as gradual underflow does.
\<close>

text \<open>For \<open>q > 0\<close>, the exponent \<open>k\<close> with \<open>2 ^ k \<le> q < 2 ^ (k + 1)\<close>.\<close>

definition ilog2 :: "rat \<Rightarrow> int" where
  "ilog2 q =
     (let k = bitlen (fst (quotient_of q)) - bitlen (snd (quotient_of q))
      in if 2 powi k \<le> q then k else k - 1)"

definition roundHalfEven :: "rat \<Rightarrow> int" where
  "roundHalfEven q =
     (let f = \<lfloor>q\<rfloor>; r = q - of_int f
      in if r < 1 / 2 then f else if 1 / 2 < r then f + 1
         else if even f then f else f + 1)"

definition roundToDouble :: "rat \<Rightarrow> rat" where
  "roundToDouble q =
     (if q = 0 then 0
      else let e = ilog2 \<bar>q\<bar> - 52
           in sgn q * of_int (roundHalfEven (\<bar>q\<bar> / 2 powi e)) * 2 powi e)"

text \<open>The largest finite double, \<open>(2 ^ 53 - 1) * 2 ^ 971\<close>.\<close>

definition maxDouble :: rat where
  "maxDouble =
     179769313486231570814527423731704356798070567525844996598917476803157260780028538760589558632766878171540458953514382464234321326889464182768467546703537516986049910576551282076245490090389328944075868508455133942304583236903222948165808559332123348274797826204144723168738177180919299881250404026184124858368"

datatype double = Finite rat | PosInf | NegInf | NotANumber

definition fromRounded :: "rat \<Rightarrow> double" where
  "fromRounded r =
     (if maxDouble < r then PosInf else if r < - maxDouble then NegInf else Finite r)"

fun double_add :: "double \<Rightarrow> double \<Rightarrow> double" where
  "double_add (Finite a) (Finite b) = fromRounded (roundToDouble (a + b))"
| "double_add (Finite a) PosInf = PosInf"
| "double_add (Finite a) NegInf = NegInf"
| "double_add PosInf (Finite b) = PosInf"
| "double_add PosInf PosInf = PosInf"
| "double_add PosInf NegInf = NotANumber"
| "double_add NegInf (Finite b) = NegInf"
| "double_add NegInf PosInf = NotANumber"
| "double_add NegInf NegInf = NegInf"
| "double_add NotANumber b = NotANumber"
| "double_add a NotANumber = NotANumber"

text \<open>The comparisons \<open><\<close> and \<open>>\<close>: false as soon as one side is \<open>NaN\<close>.\<close>

fun double_less :: "double \<Rightarrow> double \<Rightarrow> bool" where
  "double_less (Finite a) (Finite b) = (a < b)"
| "double_less (Finite a) PosInf = True"
| "double_less NegInf (Finite b) = True"
| "double_less NegInf PosInf = True"
| "double_less a b = False"

text \<open>The comparison \<open>==\<close> of two numbers: \<open>NaN\<close> equals nothing, itself included.\<close>

definition jsEquals :: "double \<Rightarrow> double \<Rightarrow> bool" where
  "jsEquals a b \<longleftrightarrow> a \<noteq> NotANumber \<and> b \<noteq> NotANumber \<and> a = b"

instantiation double :: "{zero,plus,ord}"
begin

definition zero_double :: double where
  "zero_double = Finite 0"

definition plus_double :: "double \<Rightarrow> double \<Rightarrow> double" where
  "plus_double a b = double_add a b"

definition less_double :: "double \<Rightarrow> double \<Rightarrow> bool" where
  "less_double a b = double_less a b"

definition less_eq_double :: "double \<Rightarrow> double \<Rightarrow> bool" where
  "less_eq_double a b \<longleftrightarrow> double_less a b \<or> jsEquals a b"

instance ..

end

text \<open>
  The type \<open>double\<close> has a value for every rational; the doubles proper are the
  rationals that rounding leaves unchanged and that do not exceed the largest double,
  and the three special values.
\<close>

fun isDouble :: "double \<Rightarrow> bool" where
  "isDouble (Finite q) \<longleftrightarrow> roundToDouble q = q \<and> \<bar>q\<bar> \<le> maxDouble"
| "isDouble d \<longleftrightarrow> True"

fun isFinite :: "double \<Rightarrow> bool" where
  "isFinite (Finite q) \<longleftrightarrow> True"
| "isFinite d \<longleftrightarrow> False"

fun ratOf :: "double \<Rightarrow> rat" where
  "ratOf (Finite q) = q"
| "ratOf d = 0"

text \<open>The double that a decimal literal of the source or of a JSON text denotes.\<close>

definition toDouble :: "rat \<Rightarrow> double" where
  "toDouble q = fromRounded (roundToDouble q)"

subsection \<open>Rounding error of a sum\<close>

text \<open>
  The unit roundoff of the format, and the two orders of summation that occur: the
  running totals add from the left, starting from the accumulator, and the sum of the
  values of a dictionary adds from the right, ending in \<open>0\<close>.
\<close>

definition unitRoundoff :: rat where
  "unitRoundoff = 1 / 2 ^ 53"

fun flSum :: "rat \<Rightarrow> rat list \<Rightarrow> rat" where
  "flSum s [] = s"
| "flSum s (a # as) = flSum (roundToDouble (s + a)) as"

fun flSumR :: "rat list \<Rightarrow> rat" where
  "flSumR [] = 0"
| "flSumR (a # as) = roundToDouble (a + flSumR as)"

text \<open>
  The expenditures of a summary, the transactions whose amount is not positive, and
  the rational values of their amounts.
\<close>

definition expenditures :: "double AnalysisData \<Rightarrow> double Transaction list" where
  "expenditures summary = filter (\<lambda>t. \<not> 0 < amount t) (transaction_details summary)"

definition expenditureAmounts :: "double AnalysisData \<Rightarrow> rat list" where
  "expenditureAmounts summary = map (\<lambda>t. ratOf (amount t)) (expenditures summary)"

text \<open>The state of the loop of \<open>analyzeTransactions\<close> before its first step.\<close>

definition initialTotals :: "('a::zero) totals" where
  "initialTotals =
     \<lparr>totalIncome = 0, totalExpenditure = 0, expenditureByCategory = zeroByCategory\<rparr>"

section \<open>Sample data\<close>

text \<open>
  The time values of the two dates of the specification's scenarios, as \<open>Date\<close> gives
  them for date-only ISO strings (UTC midnight, in milliseconds); any other string is
  taken as unparseable.
\<close>

definition sampleGetTime :: "string \<Rightarrow> int option" where
  "sampleGetTime s =
     (if s = ''2024-01-01'' then Some 1704067200000
      else if s = ''2024-01-05'' then Some 1704412800000
      else None)"

definition sampleRaws :: "real RawTransaction list" where
  "sampleRaws =
     [\<lparr>RawTransaction.date = ''2024-01-05'', description = ''Starbucks Coffee'',
       type = ''debit'', amount = - 4.5, balance = None\<rparr>,
      \<lparr>RawTransaction.date = ''2024-01-01'', description = ''Payroll Deposit'',
       type = ''credit'', amount = 2000, balance = None\<rparr>,
      \<lparr>RawTransaction.date = ''2024-01-01'', description = ''Netflix subscription'',
       type = ''debit'', amount = 0, balance = None\<rparr>]"

text \<open>
  Three expenditures of \<open>-0.1\<close>, \<open>-0.2\<close> and \<open>-0.3\<close>, the amounts written as the doubles
  these literals denote; the first is classified \<open>food\<close>, the other two \<open>shopping\<close>.
\<close>

definition roundingRaws :: "double RawTransaction list" where
  "roundingRaws =
     [\<lparr>RawTransaction.date = ''2024-01-01'', description = ''Coffee'',
       type = ''debit'', amount = Finite (- 3602879701896397 / 36028797018963968),
       balance = None\<rparr>,
      \<lparr>RawTransaction.date = ''2024-01-01'', description = ''Amazon'',
       type = ''debit'', amount = Finite (- 3602879701896397 / 18014398509481984),
       balance = None\<rparr>,
      \<lparr>RawTransaction.date = ''2024-01-05'', description = ''Walmart'',
       type = ''debit'', amount = Finite (- 5404319552844595 / 18014398509481984),
       balance = None\<rparr>]"

text \<open>
  The double of the literal \<open>1e308\<close>, which is \<open>5010420900022432 * 2 ^ 971\<close>, and two
  credits and two debits of that amount.
\<close>

definition d1e308 :: rat where
  "d1e308 =
     100000000000000001097906362944045541740492309677311846336810682903157585404911491537163328978494688899061249669721172515611590283743140088328307009198146046031271664502933027185697489699588559043338384466165001178426897626212945177628091195786707458122783970171784415105291802893207873272974885715430223118336"

definition overflowRaws :: "double RawTransaction list" where
  "overflowRaws =
     [\<lparr>RawTransaction.date = ''2024-01-01'', description = ''Payroll'',
       type = ''credit'', amount = Finite d1e308, balance = None\<rparr>,
      \<lparr>RawTransaction.date = ''2024-01-01'', description = ''Payroll'',
       type = ''credit'', amount = Finite d1e308, balance = None\<rparr>,
      \<lparr>RawTransaction.date = ''2024-01-01'', description = ''Coffee'',
       type = ''debit'', amount = Finite (- d1e308), balance = None\<rparr>,
      \<lparr>RawTransaction.date = ''2024-01-01'', description = ''Coffee'',
       type = ''debit'', amount = Finite (- d1e308), balance = None\<rparr>]"

text \<open>An expenditure of \<open>-0.5\<close>, a transaction of amount \<open>0\<close> and a credit of \<open>2000\<close>.\<close>

definition zeroRaws :: "double RawTransaction list" where
  "zeroRaws =
     [\<lparr>RawTransaction.date = ''2024-01-01'', description = ''Coffee'',
       type = ''debit'', amount = Finite (- 1 / 2), balance = None\<rparr>,
      \<lparr>RawTransaction.date = ''2024-01-05'', description = ''Netflix subscription'',
       type = ''debit'', amount = Finite 0, balance = None\<rparr>,
      \<lparr>RawTransaction.date = ''2024-01-05'', description = ''Payroll Deposit'',
       type = ''credit'', amount = Finite 2000, balance = None\<rparr>]"

definition samplePage :: json where
  "samplePage =
     JObject
       [(''initial_balance'', JNumber 1000),
        (''transactions'',
         JArray
           [JObject [(''date'', JString ''2024-01-05''),
                     (''description'', JString ''Starbucks Coffee''),
                     (''type'', JString ''debit''),
                     (''amount'', JNumber (- 4.5))]])]"

section \<open>Classifier: proofs\<close>

lemma str_includes_sublist: "str_includes s k \<longleftrightarrow> sublist k s"
  by (induction s) (simp_all add: sublist_Cons_right)

lemma isIncomeType_iff: "isIncomeType s \<longleftrightarrow> (\<exists>k \<in> set INCOME_HINTS. sublist k s)"
  by (simp add: isIncomeType_def INCOME_HINTS_def str_includes_sublist)

lemma scanKeywords_eq:
  "scanKeywords desc category kws =
     (if \<exists>k \<in> set kws. sublist k desc then Some category else None)"
  by (induction kws) (simp_all add: str_includes_sublist)

lemma scanKeywords_matches:
  "scanKeywords desc category kws =
     (if matches desc (category, kws) then Some category else None)"
  by (simp add: scanKeywords_eq matches_def list_ex_iff)

lemma scanCategories_filter:
  "scanCategories desc rules =
     (case filter (matches desc) rules of [] \<Rightarrow> None | rule # _ \<Rightarrow> Some (fst rule))"
  by (induction rules) (auto simp: scanKeywords_matches)

lemma scanCategories_first:
  "i < length rules \<Longrightarrow> matches desc (rules ! i) \<Longrightarrow> \<forall>j<i. \<not> matches desc (rules ! j)
     \<Longrightarrow> scanCategories desc rules = Some (fst (rules ! i))"
proof (induction rules arbitrary: i)
  case Nil
  then show ?case by simp
next
  case (Cons rule rules)
  obtain c kws where rule: "rule = (c, kws)" by (cases rule)
  show ?case
  proof (cases i)
    case 0
    with Cons.prems rule show ?thesis by (simp add: scanKeywords_matches)
  next
    case (Suc n)
    with Cons.prems have "\<not> matches desc rule" by auto
    moreover have "scanCategories desc rules = Some (fst (rules ! n))"
      using Cons.prems Suc by (intro Cons.IH) auto
    ultimately show ?thesis using rule Suc by (simp add: scanKeywords_matches)
  qed
qed

lemma scanCategories_none:
  "\<forall>rule \<in> set rules. \<not> matches desc rule \<Longrightarrow> scanCategories desc rules = None"
  by (induction rules) (auto simp: scanKeywords_matches)

lemma scanCategories_in_keys:
  "scanCategories desc rules = Some c \<Longrightarrow> c \<in> fst ` set rules"
  by (induction rules) (auto simp: scanKeywords_matches split: if_splits)

lemma categorizeTransaction_in_CATEGORIES:
  "categorizeTransaction descr ty \<in> set CATEGORIES"
proof (cases "scanCategories (toLowerCase descr) CATEGORY_RULES")
  case None
  then show ?thesis by (simp add: categorizeTransaction_def Let_def CATEGORIES_def)
next
  case (Some c)
  then have "c \<in> fst ` set CATEGORY_RULES" by (rule scanCategories_in_keys)
  then have "c \<in> set CATEGORIES" by (auto simp: CATEGORY_RULES_def CATEGORIES_def)
  with Some show ?thesis by (simp add: categorizeTransaction_def Let_def CATEGORIES_def)
qed

text \<open>
  Claim C4. When the lower-cased type hint contains one of \<open>credit\<close>, \<open>deposit\<close>,
  \<open>income\<close>, \<open>salary\<close>, \<open>refund\<close>, \<open>interest\<close> as a substring, the classifier returns
  \<open>transfer\<close>, whatever the description is.
\<close>

theorem categorizeTransaction_income:
  assumes "\<exists>k \<in> set INCOME_HINTS. sublist k (toLowerCase ty)"
  shows "categorizeTransaction descr ty = ''transfer''"
  using assms unfolding categorizeTransaction_def Let_def isIncomeType_iff by simp

theorem categorizeTransaction_income_witness:
  "(\<exists>k \<in> set INCOME_HINTS. sublist k (toLowerCase ''Credit'')) \<and>
   categorizeTransaction ''Starbucks Coffee'' ''Credit'' = ''transfer''"
proof -
  have h: "\<exists>k \<in> set INCOME_HINTS. sublist k (toLowerCase ''Credit'')"
    by code_simp
  show ?thesis
    using h categorizeTransaction_income [OF h, of "''Starbucks Coffee''"] by simp
qed

text \<open>
  Claim C5. When the type hint does not trigger the income case, the classifier
  returns the first category of the rule table, in the declaration order \<open>food\<close>,
  \<open>shopping\<close>, \<open>leisure\<close>, \<open>transport\<close>, \<open>utilities\<close>, \<open>healthcare\<close>, \<open>transfer\<close>,
  \<open>investment\<close>, \<open>subscription\<close>, one of whose keywords is a substring of the lower-cased
  description: a matching category with no matching category before it wins, and
  \<open>unknown\<close> is returned when no category matches.
\<close>

theorem categorizeTransaction_first_match:
  assumes "\<not> (\<exists>k \<in> set INCOME_HINTS. sublist k (toLowerCase ty))"
  shows "categorizeTransaction descr ty =
           firstMatchingCategory CATEGORY_RULES (toLowerCase descr)
         \<and> map fst CATEGORY_RULES =
             [''food'', ''shopping'', ''leisure'', ''transport'', ''utilities'',
              ''healthcare'', ''transfer'', ''investment'', ''subscription'']
         \<and> (\<forall>i < length CATEGORY_RULES.
               matches (toLowerCase descr) (CATEGORY_RULES ! i) \<and>
               (\<forall>j < i. \<not> matches (toLowerCase descr) (CATEGORY_RULES ! j))
               \<longrightarrow> categorizeTransaction descr ty = fst (CATEGORY_RULES ! i))
         \<and> ((\<forall>rule \<in> set CATEGORY_RULES. \<not> matches (toLowerCase descr) rule)
               \<longrightarrow> categorizeTransaction descr ty = ''unknown'')"
proof -
  have cat: "categorizeTransaction descr ty =
      (case scanCategories (toLowerCase descr) CATEGORY_RULES of
         Some category \<Rightarrow> category | None \<Rightarrow> ''unknown'')"
    using assms unfolding categorizeTransaction_def Let_def isIncomeType_iff by simp
  have 1: "categorizeTransaction descr ty =
           firstMatchingCategory CATEGORY_RULES (toLowerCase descr)"
    unfolding cat firstMatchingCategory_def scanCategories_filter
    by (simp split: list.splits)
  have 2: "map fst CATEGORY_RULES =
             [''food'', ''shopping'', ''leisure'', ''transport'', ''utilities'',
              ''healthcare'', ''transfer'', ''investment'', ''subscription'']"
    by (simp add: CATEGORY_RULES_def)
  have 3: "\<forall>i < length CATEGORY_RULES.
               matches (toLowerCase descr) (CATEGORY_RULES ! i) \<and>
               (\<forall>j < i. \<not> matches (toLowerCase descr) (CATEGORY_RULES ! j))
               \<longrightarrow> categorizeTransaction descr ty = fst (CATEGORY_RULES ! i)"
    unfolding cat by (auto simp: scanCategories_first)
  have 4: "(\<forall>rule \<in> set CATEGORY_RULES. \<not> matches (toLowerCase descr) rule)
               \<longrightarrow> categorizeTransaction descr ty = ''unknown''"
    unfolding cat by (auto simp: scanCategories_none)
  from 1 2 3 4 show ?thesis by blast
qed

text \<open>
  At \<open>Netflix subscription\<close> both \<open>leisure\<close> (third) and \<open>subscription\<close> (ninth) match,
  and the earlier one is returned.
\<close>

theorem categorizeTransaction_first_match_witness:
  "\<not> (\<exists>k \<in> set INCOME_HINTS. sublist k (toLowerCase ''debit'')) \<and>
   matches (toLowerCase ''Netflix subscription'') (CATEGORY_RULES ! 2) \<and>
   matches (toLowerCase ''Netflix subscription'') (CATEGORY_RULES ! 8) \<and>
   firstMatchingCategory CATEGORY_RULES (toLowerCase ''Netflix subscription'') = ''leisure'' \<and>
   categorizeTransaction ''Netflix subscription'' ''debit'' = ''leisure''"
proof -
  have h: "\<not> (\<exists>k \<in> set INCOME_HINTS. sublist k (toLowerCase ''debit''))"
    by code_simp
  have m2: "matches (toLowerCase ''Netflix subscription'') (CATEGORY_RULES ! 2)"
    by code_simp
  have m8: "matches (toLowerCase ''Netflix subscription'') (CATEGORY_RULES ! 8)"
    by code_simp
  have f: "firstMatchingCategory CATEGORY_RULES (toLowerCase ''Netflix subscription'') = ''leisure''"
    by code_simp
  from categorizeTransaction_first_match [OF h, of "''Netflix subscription''"]
  have "categorizeTransaction ''Netflix subscription'' ''debit'' =
          firstMatchingCategory CATEGORY_RULES (toLowerCase ''Netflix subscription'')"
    by blast
  with h m2 m8 f show ?thesis by simp
qed

section \<open>Shape guard: proofs\<close>

lemma typeof_string_iff: "typeof p = ''string'' \<longleftrightarrow> isText p"
  by (cases p rule: typeof.cases) simp_all

lemma typeof_number_iff: "typeof p = ''number'' \<longleftrightarrow> isNumeric p"
  by (cases p rule: typeof.cases) simp_all

lemma isValidTransaction_shaped: "isValidTransaction t \<longleftrightarrow> transactionShaped t"
  by (cases t) (simp_all add: isValidTransaction_def typeof_string_iff typeof_number_iff)

text \<open>
  Claim C9. The shape guard accepts a candidate exactly when it is a non-null record
  whose \<open>transactions\<close> field is a sequence of non-null records, each with a text
  \<open>date\<close>, a text \<open>description\<close>, a numeric \<open>amount\<close> and a text \<open>type\<close>, and whose
  \<open>initial_balance\<close> field, when present, is numeric; it rejects every other candidate.
\<close>

theorem isValidExtractedPageData_shape:
  "isValidExtractedPageData v \<longleftrightarrow> pageShaped v"
proof (cases v)
  case (JObject props)
  have tx: "list_all isValidTransaction ts = list_all transactionShaped ts" for ts
    by (simp add: isValidTransaction_shaped [abs_def])
  show ?thesis
  proof (cases "map_of props ''transactions''")
    case None
    with JObject show ?thesis by (simp add: isValidExtractedPageData_def)
  next
    case (Some a)
    with JObject show ?thesis
      by (cases a; cases "map_of props ''initial_balance''")
         (auto simp: isValidExtractedPageData_def Let_def tx typeof_number_iff)
  qed
qed (simp_all add: isValidExtractedPageData_def)

theorem isValidExtractedPageData_shape_witness:
  "isValidExtractedPageData samplePage \<and> pageShaped samplePage \<and>
   \<not> isValidExtractedPageData (JObject [(''initial_balance'', JNull), (''transactions'', JArray [])]) \<and>
   \<not> isValidExtractedPageData (JArray [])"
proof -
  have a: "pageShaped samplePage" by (simp add: samplePage_def)
  have b: "\<not> pageShaped (JObject [(''initial_balance'', JNull), (''transactions'', JArray [])])"
    by simp
  have c: "\<not> pageShaped (JArray [])" by simp
  from a b c show ?thesis
    using isValidExtractedPageData_shape [of samplePage]
      isValidExtractedPageData_shape [of "JObject [(''initial_balance'', JNull), (''transactions'', JArray [])]"]
      isValidExtractedPageData_shape [of "JArray []"]
    by blast
qed

section \<open>Sorting: proofs\<close>

lemma set_insertSorted: "set (insertSorted cmp x ys) = insert x (set ys)"
  by (induction ys) auto

lemma set_array_sort: "set (array_sort cmp xs) = set xs"
  by (induction xs) (simp_all add: set_insertSorted)

lemma sortCompare_compareDates:
  "getTime (date a) = Some x \<Longrightarrow> getTime (date b) = Some y \<Longrightarrow>
     sortCompare (compareDates getTime) a b \<le> 0 \<longleftrightarrow> x \<le> y"
  by (simp add: sortCompare_def compareDates_def)

lemma insertSorted_insort_key:
  assumes "getTime (date x) \<noteq> None" and "\<forall>y \<in> set ys. getTime (date y) \<noteq> None"
  shows "insertSorted (compareDates getTime) x ys =
           insort_key (\<lambda>t. the (getTime (date t))) x ys"
  using assms
proof (induction ys)
  case Nil
  then show ?case by simp
next
  case (Cons y ys)
  from Cons.prems obtain a b where "getTime (date x) = Some a" "getTime (date y) = Some b"
    by auto
  with Cons show ?case by (simp add: sortCompare_compareDates)
qed

lemma array_sort_sort_key:
  assumes "\<forall>x \<in> set xs. getTime (date x) \<noteq> None"
  shows "array_sort (compareDates getTime) xs = sort_key (\<lambda>t. the (getTime (date t))) xs"
  using assms
proof (induction xs)
  case Nil
  then show ?case by simp
next
  case (Cons x xs)
  then have "array_sort (compareDates getTime) xs = sort_key (\<lambda>t. the (getTime (date t))) xs"
    by simp
  moreover have "\<forall>y \<in> set (array_sort (compareDates getTime) xs). getTime (date y) \<noteq> None"
    using Cons.prems by (simp add: set_array_sort)
  ultimately show ?case using Cons.prems
    by (simp add: insertSorted_insort_key)
qed

lemma date_toTransaction: "date (toTransaction raw) = RawTransaction.date raw"
  by (simp add: toTransaction_def)

lemma transaction_details_eq:
  "transaction_details (analyzeTransactions getTime raws ib) =
     array_sort (compareDates getTime) (map toTransaction raws)"
  by (simp add: analyzeTransactions_def Let_def)

text \<open>
  Claim C7. When the date of every raw transaction parses, \<open>transaction_details\<close> of
  the summary is sorted non-decreasing by parsed date, whatever the order of the input.
\<close>

theorem transaction_details_sorted:
  fixes raws :: "('a::{zero,plus,ord}) RawTransaction list"
  assumes "\<forall>raw \<in> set raws. getTime (RawTransaction.date raw) \<noteq> None"
  shows "sorted_wrt (\<lambda>a b. \<exists>x y. getTime (date a) = Some x \<and> getTime (date b) = Some y \<and> x \<le> y)
           (transaction_details (analyzeTransactions getTime raws ib))"
proof -
  let ?f = "\<lambda>t::'a Transaction. the (getTime (date t))"
  let ?ts = "map toTransaction raws"
  have p: "\<forall>t \<in> set ?ts. getTime (date t) \<noteq> None"
    using assms by (simp add: date_toTransaction)
  have eq: "transaction_details (analyzeTransactions getTime raws ib) = sort_key ?f ?ts"
    unfolding transaction_details_eq using p by (rule array_sort_sort_key)
  have "sorted (map ?f (sort_key ?f ?ts))" by (rule sorted_sort_key)
  then have "sorted_wrt (\<lambda>a b. ?f a \<le> ?f b) (sort_key ?f ?ts)"
    by (simp add: sorted_map)
  moreover have "\<forall>t \<in> set (sort_key ?f ?ts). getTime (date t) \<noteq> None"
    using p by simp
  ultimately have "sorted_wrt (\<lambda>a b. \<exists>x y. getTime (date a) = Some x \<and> getTime (date b) = Some y \<and> x \<le> y)
           (sort_key ?f ?ts)"
  proof (elim sorted_wrt_mono_rel [rotated])
    fix a b :: "'a Transaction"
    assume all: "\<forall>t \<in> set (sort_key ?f ?ts). getTime (date t) \<noteq> None"
      and a: "a \<in> set (sort_key ?f ?ts)" and b: "b \<in> set (sort_key ?f ?ts)"
      and le: "?f a \<le> ?f b"
    from all a obtain x where x: "getTime (date a) = Some x" by auto
    from all b obtain y where y: "getTime (date b) = Some y" by auto
    from le x y have "x \<le> y" by simp
    with x y show "\<exists>x y. getTime (date a) = Some x \<and> getTime (date b) = Some y \<and> x \<le> y"
      by blast
  qed
  with eq show ?thesis by simp
qed

theorem transaction_details_sorted_witness:
  "list_all (\<lambda>raw. sampleGetTime (RawTransaction.date raw) \<noteq> None) sampleRaws \<and>
   sorted_wrt (\<lambda>a b. \<exists>x y. sampleGetTime (date a) = Some x \<and>
                          sampleGetTime (date b) = Some y \<and> x \<le> y)
     (transaction_details (analyzeTransactions sampleGetTime sampleRaws None)) \<and>
   map description (transaction_details (analyzeTransactions sampleGetTime sampleRaws None)) =
     [''Payroll Deposit'', ''Netflix subscription'', ''Starbucks Coffee'']"
proof -
  have h: "\<forall>raw \<in> set sampleRaws. sampleGetTime (RawTransaction.date raw) \<noteq> None"
    by (simp add: sampleRaws_def sampleGetTime_def)
  have d: "map description
             (transaction_details (analyzeTransactions sampleGetTime sampleRaws None)) =
           [''Payroll Deposit'', ''Netflix subscription'', ''Starbucks Coffee'']"
    by code_simp
  from h have "list_all (\<lambda>raw. sampleGetTime (RawTransaction.date raw) \<noteq> None) sampleRaws"
    by (simp add: list_all_iff)
  with transaction_details_sorted [OF h, of None] d show ?thesis by blast
qed

text \<open>
  Claim C8. When the date of every raw transaction parses, the transactions of any one
  parsed date appear in \<open>transaction_details\<close> in the relative order they have in the
  input: the sort is stable on date ties.
\<close>

theorem transaction_details_stable:
  fixes raws :: "('a::{zero,plus,ord}) RawTransaction list"
  assumes "\<forall>raw \<in> set raws. getTime (RawTransaction.date raw) \<noteq> None"
  shows "filter (\<lambda>t. getTime (date t) = Some k)
           (transaction_details (analyzeTransactions getTime raws ib)) =
         filter (\<lambda>t. getTime (date t) = Some k) (map toTransaction raws)"
proof -
  let ?f = "\<lambda>t::'a Transaction. the (getTime (date t))"
  let ?ts = "map toTransaction raws"
  have p: "\<forall>t \<in> set ?ts. getTime (date t) \<noteq> None"
    using assms by (simp add: date_toTransaction)
  have eq: "transaction_details (analyzeTransactions getTime raws ib) = sort_key ?f ?ts"
    unfolding transaction_details_eq using p by (rule array_sort_sort_key)
  have k: "filter (\<lambda>t. getTime (date t) = Some k) xs = filter (\<lambda>t. ?f t = k) xs"
    if "\<forall>t \<in> set xs. getTime (date t) \<noteq> None" for xs :: "'a Transaction list"
    using that by (intro filter_cong) auto
  have "filter (\<lambda>t. getTime (date t) = Some k) (sort_key ?f ?ts) =
        filter (\<lambda>t. ?f t = k) (sort_key ?f ?ts)"
    using p by (intro k) simp
  also have "\<dots> = filter (\<lambda>t. ?f t = k) ?ts" by (rule sort_key_stable)
  also have "\<dots> = filter (\<lambda>t. getTime (date t) = Some k) ?ts"
    using p by (rule k [symmetric])
  finally show ?thesis using eq by simp
qed

theorem transaction_details_stable_witness:
  "list_all (\<lambda>raw. sampleGetTime (RawTransaction.date raw) \<noteq> None) sampleRaws \<and>
   filter (\<lambda>t. sampleGetTime (date t) = Some 1704067200000)
     (transaction_details (analyzeTransactions sampleGetTime sampleRaws None)) =
   filter (\<lambda>t. sampleGetTime (date t) = Some 1704067200000) (map toTransaction sampleRaws) \<and>
   map description (filter (\<lambda>t. sampleGetTime (date t) = Some 1704067200000)
     (map toTransaction sampleRaws)) = [''Payroll Deposit'', ''Netflix subscription'']"
proof -
  have h: "\<forall>raw \<in> set sampleRaws. sampleGetTime (RawTransaction.date raw) \<noteq> None"
    by (simp add: sampleRaws_def sampleGetTime_def)
  have d: "map description (filter (\<lambda>t. sampleGetTime (date t) = Some 1704067200000)
     (map toTransaction sampleRaws)) = [''Payroll Deposit'', ''Netflix subscription'']"
    by code_simp
  from h have "list_all (\<lambda>raw. sampleGetTime (RawTransaction.date raw) \<noteq> None) sampleRaws"
    by (simp add: list_all_iff)
  with transaction_details_stable [OF h, of 1704067200000 None] d show ?thesis by blast
qed

section \<open>Aggregation: proofs\<close>

text \<open>
  The balance is computed by one expression of the three other fields, whatever the
  number type is.
\<close>

lemma final_balance_expression:
  fixes rawTransactions :: "('a::{zero,plus,ord}) RawTransaction list"
  shows "final_balance (analyzeTransactions getTime rawTransactions initialBalance) =
           initial_balance (analyzeTransactions getTime rawTransactions initialBalance)
           + total_income (analyzeTransactions getTime rawTransactions initialBalance)
           + total_expenditure (analyzeTransactions getTime rawTransactions initialBalance)"
  by (simp add: analyzeTransactions_def Let_def)

lemma keys_add_assign:
  "key \<in> fst ` set obj \<Longrightarrow> map fst (add_assign key v obj) = map fst obj"
  by (induction obj) force+

lemma number_add_assoc:
  fixes a b c :: "('a::semigroup_add) number"
  shows "number_add (number_add a b) c = number_add a (number_add b c)"
  by (cases a; cases b; cases c) (simp_all add: add.assoc)

lemma sumValues_add_assign:
  fixes obj :: "('a::comm_monoid_add) dict"
  shows "key \<in> fst ` set obj \<Longrightarrow>
           sumValues (add_assign key v obj) = number_add (sumValues obj) (Num v)"
proof (induction obj)
  case Nil
  then show ?case by simp
next
  case (Cons p obj)
  obtain k n where p: "p = (k, n)" by (cases p)
  show ?case
  proof (cases "k = key")
    case True
    have "number_add (case n of Num x \<Rightarrow> Num (x + v) | NaN \<Rightarrow> NaN) s =
          number_add (number_add n s) (Num v)" for s
      by (cases n; cases s) (simp_all add: add.assoc add.commute add.left_commute)
    with True p show ?thesis by simp
  next
    case False
    with Cons p have "sumValues (add_assign key v obj) = number_add (sumValues obj) (Num v)"
      by auto
    with False p show ?thesis by (simp add: number_add_assoc)
  qed
qed

lemma map_of_add_assign_other:
  "c \<noteq> key \<Longrightarrow> map_of (add_assign key v obj) c = map_of obj c"
  by (induction obj) auto

text \<open>The \<open>forEach\<close> loop keeps the keys and the sum of the values in step with the total.\<close>

lemma processTransaction_keys:
  "type t \<in> fst ` set (expenditureByCategory acc) \<Longrightarrow>
     map fst (expenditureByCategory (processTransaction acc t)) =
     map fst (expenditureByCategory acc)"
  by (simp add: processTransaction_def keys_add_assign)

lemma processTransaction_sum:
  fixes acc :: "('a::{comm_monoid_add,ord}) totals"
  assumes "type t \<in> fst ` set (expenditureByCategory acc)"
    and "sumValues (expenditureByCategory acc) = Num (totalExpenditure acc)"
  shows "sumValues (expenditureByCategory (processTransaction acc t)) =
           Num (totalExpenditure (processTransaction acc t))"
  using assms by (simp add: processTransaction_def sumValues_add_assign)

lemma processTransaction_other:
  "type t = c \<longrightarrow> 0 < amount t \<Longrightarrow>
     map_of (expenditureByCategory (processTransaction acc t)) c =
     map_of (expenditureByCategory acc) c"
  by (auto simp: processTransaction_def map_of_add_assign_other)

lemma foldl_processTransaction_keys:
  "\<forall>t \<in> set ts. type t \<in> fst ` set (expenditureByCategory acc) \<Longrightarrow>
     map fst (expenditureByCategory (foldl processTransaction acc ts)) =
     map fst (expenditureByCategory acc)"
proof (induction ts arbitrary: acc)
  case Nil
  then show ?case by simp
next
  case (Cons t ts)
  have k: "map fst (expenditureByCategory (processTransaction acc t)) =
           map fst (expenditureByCategory acc)"
    using Cons.prems by (simp add: processTransaction_keys)
  then have "fst ` set (expenditureByCategory (processTransaction acc t)) =
             fst ` set (expenditureByCategory acc)"
    by (metis set_map)
  with Cons.prems have "\<forall>t' \<in> set ts. type t' \<in> fst ` set (expenditureByCategory (processTransaction acc t))"
    by simp
  from Cons.IH [OF this] k show ?case by simp
qed

lemma foldl_processTransaction_sum:
  fixes acc :: "('a::{comm_monoid_add,ord}) totals"
  assumes "\<forall>t \<in> set ts. type t \<in> fst ` set (expenditureByCategory acc)"
    and "sumValues (expenditureByCategory acc) = Num (totalExpenditure acc)"
  shows "sumValues (expenditureByCategory (foldl processTransaction acc ts)) =
           Num (totalExpenditure (foldl processTransaction acc ts))"
  using assms
proof (induction ts arbitrary: acc)
  case Nil
  then show ?case by simp
next
  case (Cons t ts)
  have k: "map fst (expenditureByCategory (processTransaction acc t)) =
           map fst (expenditureByCategory acc)"
    using Cons.prems by (simp add: processTransaction_keys)
  then have "fst ` set (expenditureByCategory (processTransaction acc t)) =
             fst ` set (expenditureByCategory acc)"
    by (metis set_map)
  with Cons.prems have a: "\<forall>t' \<in> set ts. type t' \<in> fst ` set (expenditureByCategory (processTransaction acc t))"
    by simp
  have b: "sumValues (expenditureByCategory (processTransaction acc t)) =
           Num (totalExpenditure (processTransaction acc t))"
    using Cons.prems by (intro processTransaction_sum) simp_all
  from Cons.IH [OF a b] show ?case by simp
qed

lemma foldl_processTransaction_other:
  "\<forall>t \<in> set ts. type t = c \<longrightarrow> 0 < amount t \<Longrightarrow>
     map_of (expenditureByCategory (foldl processTransaction acc ts)) c =
     map_of (expenditureByCategory acc) c"
  by (induction ts arbitrary: acc) (simp_all add: processTransaction_other)

lemma keys_zeroByCategory: "map fst zeroByCategory = CATEGORIES"
  by (simp add: zeroByCategory_def CATEGORIES_def)

lemma sumValues_zeroByCategory: "sumValues (zeroByCategory :: ('a::monoid_add) dict) = Num 0"
  by (simp add: zeroByCategory_def)

lemma map_of_zeroByCategory: "c \<in> set CATEGORIES \<Longrightarrow> map_of zeroByCategory c = Some (Num 0)"
  by (auto simp: zeroByCategory_def CATEGORIES_def)

lemma type_toTransaction: "type (toTransaction raw) \<in> set CATEGORIES"
  by (simp add: toTransaction_def categorizeTransaction_in_CATEGORIES)

lemma types_sorted_in_CATEGORIES:
  "\<forall>t \<in> set (array_sort cmp (map toTransaction raws)). type t \<in> set CATEGORIES"
  by (auto simp: set_array_sort type_toTransaction)

lemma analyze_fold:
  "total_expenditure (analyzeTransactions getTime raws ib) =
     totalExpenditure (foldl processTransaction
        \<lparr>totalIncome = 0, totalExpenditure = 0, expenditureByCategory = zeroByCategory\<rparr>
        (array_sort (compareDates getTime) (map toTransaction raws)))"
  "expenditure_by_category (analyzeTransactions getTime raws ib) =
     expenditureByCategory (foldl processTransaction
        \<lparr>totalIncome = 0, totalExpenditure = 0, expenditureByCategory = zeroByCategory\<rparr>
        (array_sort (compareDates getTime) (map toTransaction raws)))"
  "total_income (analyzeTransactions getTime raws ib) =
     totalIncome (foldl processTransaction
        \<lparr>totalIncome = 0, totalExpenditure = 0, expenditureByCategory = zeroByCategory\<rparr>
        (array_sort (compareDates getTime) (map toTransaction raws)))"
  by (simp_all add: analyzeTransactions_def Let_def)

lemma init_keys: "fst ` set zeroByCategory = set CATEGORIES"
  using keys_zeroByCategory by (metis set_map)

text \<open>
  In exact arithmetic, that is for a number type whose addition is associative and
  commutative with \<open>0\<close> neutral, the total of the expenditures is the sum of the entries.
\<close>

lemma category_sum_exact:
  fixes raws :: "('a::{comm_monoid_add,ord}) RawTransaction list"
  shows "sumValues (expenditure_by_category (analyzeTransactions getTime raws ib)) =
           Num (total_expenditure (analyzeTransactions getTime raws ib))"
  unfolding analyze_fold
  by (rule foldl_processTransaction_sum)
     (simp_all add: init_keys types_sorted_in_CATEGORIES sumValues_zeroByCategory)

text \<open>
  Claim C3. For every input, the empty one included, the keys of
  \<open>expenditure_by_category\<close> are the ten category identifiers \<open>food\<close>, \<open>shopping\<close>,
  \<open>leisure\<close>, \<open>transport\<close>, \<open>utilities\<close>, \<open>healthcare\<close>, \<open>transfer\<close>, \<open>investment\<close>,
  \<open>subscription\<close>, \<open>unknown\<close>, and a category that no expenditure (a transaction whose
  amount is not positive) falls into has the value \<open>0\<close>.
\<close>

theorem category_completeness:
  fixes raws :: "('a::{zero,plus,ord}) RawTransaction list"
  shows "map fst (expenditure_by_category (analyzeTransactions getTime raws ib)) = CATEGORIES
       \<and> (\<forall>c \<in> set CATEGORIES.
            (\<forall>t \<in> set (transaction_details (analyzeTransactions getTime raws ib)).
                type t = c \<longrightarrow> 0 < amount t)
            \<longrightarrow> map_of (expenditure_by_category (analyzeTransactions getTime raws ib)) c
                  = Some (Num 0))"
proof -
  let ?init = "\<lparr>totalIncome = 0::'a, totalExpenditure = 0, expenditureByCategory = zeroByCategory\<rparr>"
  let ?ts = "array_sort (compareDates getTime) (map toTransaction raws)"
  have "map fst (expenditureByCategory (foldl processTransaction ?init ?ts)) =
        map fst (expenditureByCategory ?init)"
    by (rule foldl_processTransaction_keys) (simp add: init_keys types_sorted_in_CATEGORIES)
  then have 1: "map fst (expenditure_by_category (analyzeTransactions getTime raws ib)) = CATEGORIES"
    by (simp add: analyze_fold keys_zeroByCategory)
  have 2: "map_of (expenditure_by_category (analyzeTransactions getTime raws ib)) c = Some (Num 0)"
    if c: "c \<in> set CATEGORIES"
      and no: "\<forall>t \<in> set (transaction_details (analyzeTransactions getTime raws ib)).
                type t = c \<longrightarrow> 0 < amount t" for c
  proof -
    from no have "\<forall>t \<in> set ?ts. type t = c \<longrightarrow> 0 < amount t"
      by (simp add: transaction_details_eq)
    then have "map_of (expenditureByCategory (foldl processTransaction ?init ?ts)) c =
               map_of (expenditureByCategory ?init) c"
      by (rule foldl_processTransaction_other)
    with c show ?thesis by (simp add: analyze_fold map_of_zeroByCategory)
  qed
  from 1 2 show ?thesis by blast
qed

theorem category_completeness_witness:
  "map fst (expenditure_by_category (analyzeTransactions sampleGetTime sampleRaws None)) =
     [''food'', ''shopping'', ''leisure'', ''transport'', ''utilities'',
      ''healthcare'', ''transfer'', ''investment'', ''subscription'', ''unknown''] \<and>
   list_all (\<lambda>t. type t = ''shopping'' \<longrightarrow> 0 < amount t)
     (transaction_details (analyzeTransactions sampleGetTime sampleRaws None)) \<and>
   map_of (expenditure_by_category (analyzeTransactions sampleGetTime sampleRaws None))
     ''shopping'' = Some (Num 0) \<and>
   map fst (expenditure_by_category (analyzeTransactions sampleGetTime ([] :: real RawTransaction list) (Some 50))) =
     CATEGORIES"
proof -
  have c: "''shopping'' \<in> set CATEGORIES" by (simp add: CATEGORIES_def)
  have h: "list_all (\<lambda>t. type t = ''shopping'' \<longrightarrow> 0 < amount t)
     (transaction_details (analyzeTransactions sampleGetTime sampleRaws None))"
    by code_simp
  then have h': "\<forall>t \<in> set (transaction_details (analyzeTransactions sampleGetTime sampleRaws None)).
     type t = ''shopping'' \<longrightarrow> 0 < amount t"
    by (simp add: list_all_iff)
  from category_completeness [of sampleGetTime sampleRaws None] c h'
  have "map fst (expenditure_by_category (analyzeTransactions sampleGetTime sampleRaws None)) = CATEGORIES"
    and "map_of (expenditure_by_category (analyzeTransactions sampleGetTime sampleRaws None))
     ''shopping'' = Some (Num 0)"
    by blast+
  moreover from category_completeness [of sampleGetTime "[] :: real RawTransaction list" "Some 50"]
  have "map fst (expenditure_by_category (analyzeTransactions sampleGetTime ([] :: real RawTransaction list) (Some 50))) =
     CATEGORIES" by blast
  ultimately show ?thesis using h by (simp add: CATEGORIES_def)
qed

lemma map_of_add_assign_same:
  "map_of (add_assign key v obj) key =
     (case map_of obj key of None \<Rightarrow> Some NaN | Some n \<Rightarrow> Some (number_add n (Num v)))"
proof (induction obj)
  case Nil
  then show ?case by simp
next
  case (Cons p obj)
  obtain k n where p: "p = (k, n)" by (cases p)
  show ?case using Cons p by (cases n) auto
qed

lemma number_add_zero:
  fixes n :: "('a::monoid_add) number"
  shows "number_add n (Num 0) = n"
  by (cases n) simp_all

section \<open>Doubles: proofs\<close>

subsection \<open>Rounding\<close>

lemma ilog2_bounds:
  assumes "0 < q"
  shows "2 powi (ilog2 q) \<le> q \<and> q < 2 powi (ilog2 q + 1)"
proof -
  obtain n d where nd: "quotient_of q = (n, d)" by (cases "quotient_of q")
  then have d: "0 < d" by (rule quotient_of_denom_pos)
  from nd have q: "q = of_int n / of_int d" by (rule quotient_of_div)
  with assms d have n: "0 < n" by (simp add: zero_less_divide_iff)
  define bn where "bn = bitlen n"
  define bd where "bd = bitlen d"
  from bitlen_bounds [OF n] have n1: "2 ^ nat (bn - 1) \<le> n" and n2: "n < 2 ^ nat bn"
    by (simp_all add: bn_def)
  from bitlen_bounds [OF d] have d1: "2 ^ nat (bd - 1) \<le> d" and d2: "d < 2 ^ nat bd"
    by (simp_all add: bd_def)
  have bn1: "1 \<le> bn" using n by (simp add: bn_def bitlen_alt_def) 
  have bd1: "1 \<le> bd" using d by (simp add: bd_def bitlen_alt_def)
  have N1: "(2::rat) powi (bn - 1) \<le> of_int n"
  proof -
    have "(of_int (2 ^ nat (bn - 1)) :: rat) \<le> of_int n" using n1 by (simp only: of_int_le_iff)
    then show ?thesis using bn1 by (simp add: power_int_def)
  qed
  have N2: "(of_int n :: rat) < 2 powi bn"
  proof -
    have "(of_int n :: rat) < of_int (2 ^ nat bn)" using n2 by (simp only: of_int_less_iff)
    then show ?thesis using bn1 by (simp add: power_int_def)
  qed
  have D1: "(2::rat) powi (bd - 1) \<le> of_int d"
  proof -
    have "(of_int (2 ^ nat (bd - 1)) :: rat) \<le> of_int d" using d1 by (simp only: of_int_le_iff)
    then show ?thesis using bd1 by (simp add: power_int_def)
  qed
  have D2: "(of_int d :: rat) < 2 powi bd"
  proof -
    have "(of_int d :: rat) < of_int (2 ^ nat bd)" using d2 by (simp only: of_int_less_iff)
    then show ?thesis using bd1 by (simp add: power_int_def)
  qed
  define k where "k = bn - bd"
  have dpos: "(0::rat) < of_int d" using d by simp
  have up: "q < 2 powi (k + 1)"
  proof -
    have "q * of_int d = of_int n" using q dpos by simp
    also have "\<dots> < 2 powi bn" by (rule N2)
    also have "\<dots> = 2 powi (k + 1) * 2 powi (bd - 1)"
      by (simp add: k_def power_int_add [symmetric])
    also have "\<dots> \<le> 2 powi (k + 1) * of_int d"
      by (intro mult_left_mono D1) simp
    finally show ?thesis using dpos by simp
  qed
  have lo: "2 powi (k - 1) < q"
  proof -
    have "(2::rat) powi (k - 1) * of_int d < 2 powi (k - 1) * 2 powi bd"
      by (intro mult_strict_left_mono D2) simp
    also have "\<dots> = (2::rat) powi (bn - 1)"
      by (simp add: k_def power_int_add [symmetric])
    also have "\<dots> \<le> of_int n" by (rule N1)
    also have "\<dots> = q * of_int d" using q dpos by simp
    finally show ?thesis using dpos by simp
  qed
  have il: "ilog2 q = (if 2 powi k \<le> q then k else k - 1)"
    by (simp add: ilog2_def nd k_def bn_def bd_def Let_def)
  show ?thesis
  proof (cases "2 powi k \<le> q")
    case True
    with il up show ?thesis by simp
  next
    case False
    with il lo show ?thesis by simp
  qed
qed

lemma ilog2_unique:
  assumes "2 powi k \<le> q" and "q < 2 powi (k + 1)"
  shows "ilog2 q = k"
proof -
  have "(0::rat) < 2 powi k" by simp
  with assms(1) have q: "0 < q" by linarith
  from ilog2_bounds [OF q] have a: "2 powi (ilog2 q) \<le> q" and b: "q < 2 powi (ilog2 q + 1)"
    by simp_all
  have "\<not> ilog2 q < k"
  proof
    assume "ilog2 q < k"
    then have "ilog2 q + 1 \<le> k" by simp
    then have "(2::rat) powi (ilog2 q + 1) \<le> 2 powi k" by (intro power_int_increasing) simp_all
    with b assms(1) show False by linarith
  qed
  moreover have "\<not> k < ilog2 q"
  proof
    assume "k < ilog2 q"
    then have "k + 1 \<le> ilog2 q" by simp
    then have "(2::rat) powi (k + 1) \<le> 2 powi (ilog2 q)" by (intro power_int_increasing) simp_all
    with a assms(2) show False by linarith
  qed
  ultimately show ?thesis by linarith
qed

lemma roundHalfEven_error: "\<bar>of_int (roundHalfEven x) - x\<bar> \<le> 1 / 2"
proof -
  have "of_int \<lfloor>x\<rfloor> \<le> x" "x < of_int \<lfloor>x\<rfloor> + 1" by linarith+
  then show ?thesis by (auto simp: roundHalfEven_def Let_def)
qed

lemma roundHalfEven_of_int [simp]: "roundHalfEven (of_int m) = m"
  by (simp add: roundHalfEven_def)

lemma roundHalfEven_mono_int:
  "of_int m \<le> x \<Longrightarrow> m \<le> roundHalfEven x"
  "x \<le> of_int m \<Longrightarrow> roundHalfEven x \<le> m"
proof -
  show "of_int m \<le> x \<Longrightarrow> m \<le> roundHalfEven x"
  proof -
    assume "of_int m \<le> x"
    then have "m \<le> \<lfloor>x\<rfloor>" by (simp add: le_floor_iff)
    then show ?thesis by (auto simp: roundHalfEven_def Let_def)
  qed
  show "x \<le> of_int m \<Longrightarrow> roundHalfEven x \<le> m"
  proof -
    assume a: "x \<le> of_int m"
    show ?thesis
    proof (cases "x = of_int m")
      case True
      then show ?thesis by simp
    next
      case False
      with a have "x < of_int m" by simp
      then have "\<lfloor>x\<rfloor> < m" by (simp add: floor_less_iff)
      then have "\<lfloor>x\<rfloor> + 1 \<le> m" by simp
      moreover have "roundHalfEven x \<le> \<lfloor>x\<rfloor> + 1" by (auto simp: roundHalfEven_def Let_def)
      ultimately show ?thesis by linarith
    qed
  qed
qed

text \<open>The shape of a rounded value.\<close>

lemma roundToDouble_shape:
  assumes "q \<noteq> 0"
  defines "e \<equiv> ilog2 \<bar>q\<bar> - 52"
  defines "m \<equiv> roundHalfEven (\<bar>q\<bar> / 2 powi e)"
  shows "roundToDouble q = sgn q * of_int m * 2 powi e"
    and "2 ^ 52 \<le> m" and "m \<le> 2 ^ 53"
    and "\<bar>of_int m - \<bar>q\<bar> / 2 powi e\<bar> \<le> 1 / 2"
    and "2 ^ 52 * 2 powi e \<le> \<bar>q\<bar>"
proof -
  have a: "0 < \<bar>q\<bar>" using assms(1) by simp
  from ilog2_bounds [OF a] have lo: "2 powi (ilog2 \<bar>q\<bar>) \<le> \<bar>q\<bar>"
    and hi: "\<bar>q\<bar> < 2 powi (ilog2 \<bar>q\<bar> + 1)" by simp_all
  have pe: "(0::rat) < 2 powi e" by simp
  have k: "ilog2 \<bar>q\<bar> = e + 52" by (simp add: e_def)
  have p52: "(2::rat) powi (e + 52) = 2 ^ 52 * 2 powi e"
    by (simp add: power_int_add)
  have p53: "(2::rat) powi (e + 53) = 2 ^ 53 * 2 powi e"
    by (simp add: power_int_add)
  show lo': "2 ^ 52 * 2 powi e \<le> \<bar>q\<bar>" using lo unfolding k p52 .
  have hi': "\<bar>q\<bar> < 2 ^ 53 * 2 powi e" using hi unfolding k using p53 by (simp add: add.commute)
  have x1: "of_int (2 ^ 52) \<le> \<bar>q\<bar> / 2 powi e" using lo' pe by (simp add: le_divide_eq)
  have x2: "\<bar>q\<bar> / 2 powi e \<le> of_int (2 ^ 53)" using hi' pe by (simp add: divide_le_eq)
  show "2 ^ 52 \<le> m" unfolding m_def by (rule roundHalfEven_mono_int(1) [OF x1])
  show "m \<le> 2 ^ 53" unfolding m_def by (rule roundHalfEven_mono_int(2) [OF x2])
  show "\<bar>of_int m - \<bar>q\<bar> / 2 powi e\<bar> \<le> 1 / 2" unfolding m_def by (rule roundHalfEven_error)
  show "roundToDouble q = sgn q * of_int m * 2 powi e"
    using assms(1) by (simp add: roundToDouble_def Let_def m_def e_def)
qed

lemma roundToDouble_error: "\<bar>roundToDouble q - q\<bar> \<le> \<bar>q\<bar> / 2 ^ 53"
proof (cases "q = 0")
  case True
  then show ?thesis by (simp add: roundToDouble_def)
next
  case False
  define e where "e = ilog2 \<bar>q\<bar> - 52"
  define m where "m = roundHalfEven (\<bar>q\<bar> / 2 powi e)"
  note sh = roundToDouble_shape [OF False, folded e_def m_def]
  have pe: "(0::rat) < 2 powi e" by simp
  have q: "q = sgn q * \<bar>q\<bar>" by (simp add: sgn_mult_abs)
  have "roundToDouble q - q = sgn q * (of_int m * 2 powi e - \<bar>q\<bar>)"
    using q by (simp add: sh(1) algebra_simps)
  also have "of_int m * 2 powi e - \<bar>q\<bar> = (of_int m - \<bar>q\<bar> / 2 powi e) * 2 powi e"
    using pe by (simp add: algebra_simps)
  finally have "\<bar>roundToDouble q - q\<bar> = \<bar>of_int m - \<bar>q\<bar> / 2 powi e\<bar> * 2 powi e"
    using False by (simp add: abs_mult abs_sgn_eq)
  also have "\<dots> \<le> 1 / 2 * 2 powi e"
    by (intro mult_right_mono sh(4)) simp
  also have "\<dots> = (2 ^ 52 * 2 powi e) / 2 ^ 53" by simp
  also have "\<dots> \<le> \<bar>q\<bar> / 2 ^ 53"
    by (intro divide_right_mono sh(5)) simp
  finally show ?thesis .
qed

lemma roundToDouble_idem: "roundToDouble (roundToDouble q) = roundToDouble q"
proof (cases "q = 0")
  case True
  then show ?thesis by (simp add: roundToDouble_def)
next
  case False
  define e where "e = ilog2 \<bar>q\<bar> - 52"
  define m where "m = roundHalfEven (\<bar>q\<bar> / 2 powi e)"
  note sh = roundToDouble_shape [OF False, folded e_def m_def]
  define r where "r = roundToDouble q"
  have pe: "(0::rat) < 2 powi e" by simp
  have mpos: "0 < m" using sh(2) by (smt (verit) zero_less_power)
  have r: "r = sgn q * of_int m * 2 powi e" by (simp add: r_def sh(1))
  have ar: "\<bar>r\<bar> = of_int m * 2 powi e"
    using False mpos by (simp add: r abs_mult abs_sgn_eq)
  have r0: "r \<noteq> 0" using ar mpos pe by auto
  have sr: "sgn r = sgn q" using mpos pe False by (simp add: r sgn_mult)
  show ?thesis
  proof (cases "m = 2 ^ 53")
    case True
    have ar': "\<bar>r\<bar> = 2 powi (e + 53)"
      by (simp add: ar True power_int_add)
    have "ilog2 \<bar>r\<bar> = e + 53"
      by (rule ilog2_unique) (simp_all add: ar' power_int_add)
    then have e': "ilog2 \<bar>r\<bar> - 52 = e + 1" by simp
    have x: "\<bar>r\<bar> / 2 powi (e + 1) = of_int (2 ^ 52)"
      by (simp add: ar' power_int_add)
    have "roundToDouble r =
            sgn r * of_int (roundHalfEven (\<bar>r\<bar> / 2 powi (e + 1))) * 2 powi (e + 1)"
      using r0 by (simp add: roundToDouble_def Let_def e')
    also have "\<dots> = sgn r * of_int (2 ^ 52) * 2 powi (e + 1)"
      by (simp only: x roundHalfEven_of_int)
    also have "\<dots> = sgn q * of_int (2 ^ 52) * 2 powi (e + 1)" by (simp only: sr)
    also have "\<dots> = r" by (simp add: r True power_int_add)
    finally show ?thesis by (simp add: r_def)
  next
    case False
    with sh(3) have m53: "m < 2 ^ 53" by simp
    have "of_int (2 ^ 52) * 2 powi e \<le> (of_int m :: rat) * 2 powi e"
      by (intro mult_right_mono) (use sh(2) in \<open>simp_all only: of_int_le_iff\<close>, simp)
    then have lo: "2 powi (e + 52) \<le> \<bar>r\<bar>" by (simp add: ar power_int_add)
    have "(of_int m :: rat) * 2 powi e < of_int (2 ^ 53) * 2 powi e"
      by (intro mult_strict_right_mono) (use m53 in \<open>simp_all only: of_int_less_iff\<close>, simp)
    then have hi: "\<bar>r\<bar> < 2 powi (e + 52 + 1)" by (simp add: ar power_int_add)
    have "ilog2 \<bar>r\<bar> = e + 52" by (rule ilog2_unique [OF lo hi])
    then have e': "ilog2 \<bar>r\<bar> - 52 = e" by simp
    have x: "\<bar>r\<bar> / 2 powi e = of_int m" by (simp add: ar)
    have "roundToDouble r = sgn r * of_int (roundHalfEven (\<bar>r\<bar> / 2 powi e)) * 2 powi e"
      using r0 by (simp add: roundToDouble_def Let_def e')
    also have "\<dots> = sgn r * of_int m * 2 powi e"
      by (simp only: x roundHalfEven_of_int)
    also have "\<dots> = sgn q * of_int m * 2 powi e" by (simp only: sr)
    also have "\<dots> = r" by (simp add: r)
    finally show ?thesis by (simp add: r_def)
  qed
qed

lemma unitRoundoff_pos: "0 < unitRoundoff"
  by (simp add: unitRoundoff_def)

lemma roundToDouble_rel_error: "\<bar>roundToDouble q - q\<bar> \<le> unitRoundoff * \<bar>q\<bar>"
  using roundToDouble_error [of q] by (simp add: unitRoundoff_def)

lemma roundToDouble_abs_le: "\<bar>roundToDouble q\<bar> \<le> (1 + unitRoundoff) * \<bar>q\<bar>"
proof -
  have "\<bar>roundToDouble q\<bar> \<le> \<bar>roundToDouble q - q\<bar> + \<bar>q\<bar>" by simp
  also have "\<dots> \<le> unitRoundoff * \<bar>q\<bar> + \<bar>q\<bar>"
    using roundToDouble_rel_error [of q] by simp
  finally show ?thesis by (simp add: algebra_simps)
qed

lemma growth_ge_1: "1 \<le> (1 + unitRoundoff) ^ n"
  using unitRoundoff_pos by (intro one_le_power) simp

lemma growth_mono: "m \<le> n \<Longrightarrow> (1 + unitRoundoff) ^ m \<le> (1 + unitRoundoff) ^ n"
  using unitRoundoff_pos by (intro power_increasing) simp_all

lemma flSum_error:
  "\<bar>flSum s xs - (s + sum_list xs)\<bar>
     \<le> ((1 + unitRoundoff) ^ length xs - 1) * (\<bar>s\<bar> + sum_list (map abs xs))"
proof (induction xs arbitrary: s)
  case Nil
  then show ?case by simp
next
  case (Cons a xs)
  define u where "u = unitRoundoff"
  define g where "g = (1 + u) ^ length xs"
  define s' where "s' = roundToDouble (s + a)"
  define B where "B = \<bar>s\<bar> + \<bar>a\<bar>"
  define C where "C = sum_list (map abs xs)"
  have u: "0 < u" by (simp add: u_def unitRoundoff_pos)
  have g: "1 \<le> g" unfolding g_def u_def by (rule growth_ge_1)
  have C: "0 \<le> C" unfolding C_def by (rule sum_list_nonneg) auto
  have B: "0 \<le> B" by (simp add: B_def)
  have sa: "\<bar>s + a\<bar> \<le> B" by (simp add: B_def)
  have e1: "\<bar>s' - (s + a)\<bar> \<le> u * B"
  proof -
    have "\<bar>s' - (s + a)\<bar> \<le> u * \<bar>s + a\<bar>"
      unfolding s'_def u_def by (rule roundToDouble_rel_error)
    also have "\<dots> \<le> u * B" using sa u by (intro mult_left_mono) simp_all
    finally show ?thesis .
  qed
  have e2: "\<bar>s'\<bar> \<le> (1 + u) * B"
  proof -
    have "\<bar>s'\<bar> \<le> (1 + u) * \<bar>s + a\<bar>"
      unfolding s'_def u_def by (rule roundToDouble_abs_le)
    also have "\<dots> \<le> (1 + u) * B" using sa u by (intro mult_left_mono) simp_all
    finally show ?thesis .
  qed
  have ih: "\<bar>flSum s' xs - (s' + sum_list xs)\<bar> \<le> (g - 1) * (\<bar>s'\<bar> + C)"
    using Cons.IH [of s'] by (simp add: g_def u_def C_def)
  have "(g - 1) * (\<bar>s'\<bar> + C) \<le> (g - 1) * ((1 + u) * B + C)"
    using e2 g by (intro mult_left_mono) simp_all
  with ih have ih': "\<bar>flSum s' xs - (s' + sum_list xs)\<bar> \<le> (g - 1) * ((1 + u) * B + C)"
    by linarith
  have "\<bar>flSum s (a # xs) - (s + sum_list (a # xs))\<bar>
          = \<bar>(flSum s' xs - (s' + sum_list xs)) + (s' - (s + a))\<bar>"
    by (simp add: s'_def algebra_simps)
  also have "\<dots> \<le> \<bar>flSum s' xs - (s' + sum_list xs)\<bar> + \<bar>s' - (s + a)\<bar>"
    by (rule abs_triangle_ineq)
  also have "\<dots> \<le> (g - 1) * ((1 + u) * B + C) + u * B"
    using ih' e1 by linarith
  also have "\<dots> = (g * (1 + u) - 1) * B + (g - 1) * C"
    by (simp add: algebra_simps)
  also have "\<dots> \<le> (g * (1 + u) - 1) * B + (g * (1 + u) - 1) * C"
  proof -
    have "g - 1 \<le> g * (1 + u) - 1" using g u by (simp add: algebra_simps)
    then have "(g - 1) * C \<le> (g * (1 + u) - 1) * C" using C by (rule mult_right_mono)
    then show ?thesis by simp
  qed
  also have "\<dots> = ((1 + u) ^ length (a # xs) - 1) * (\<bar>s\<bar> + sum_list (map abs (a # xs)))"
    by (simp add: g_def B_def C_def algebra_simps)
  finally show ?case by (simp add: u_def)
qed

lemma flSumR_error:
  "\<bar>flSumR xs - sum_list xs\<bar>
     \<le> ((1 + unitRoundoff) ^ length xs - 1) * sum_list (map abs xs)"
proof (induction xs)
  case Nil
  then show ?case by simp
next
  case (Cons a xs)
  define u where "u = unitRoundoff"
  define g where "g = (1 + u) ^ length xs"
  define y where "y = flSumR xs"
  define C where "C = sum_list (map abs xs)"
  have u: "0 < u" by (simp add: u_def unitRoundoff_pos)
  have g: "1 \<le> g" unfolding g_def u_def by (rule growth_ge_1)
  have C: "0 \<le> C" unfolding C_def by (rule sum_list_nonneg) auto
  have sC: "\<bar>sum_list xs\<bar> \<le> C" unfolding C_def by (rule sum_list_abs)
  have ih: "\<bar>y - sum_list xs\<bar> \<le> (g - 1) * C"
    using Cons.IH by (simp add: y_def g_def u_def C_def)
  have yb: "\<bar>y\<bar> \<le> g * C"
  proof -
    have "\<bar>y\<bar> \<le> \<bar>y - sum_list xs\<bar> + \<bar>sum_list xs\<bar>" by simp
    also have "\<dots> \<le> (g - 1) * C + C" using ih sC by linarith
    finally show ?thesis by (simp add: algebra_simps)
  qed
  have e1: "\<bar>roundToDouble (a + y) - (a + y)\<bar> \<le> u * (\<bar>a\<bar> + g * C)"
  proof -
    have "\<bar>roundToDouble (a + y) - (a + y)\<bar> \<le> u * \<bar>a + y\<bar>"
      unfolding u_def by (rule roundToDouble_rel_error)
    also have "\<bar>a + y\<bar> \<le> \<bar>a\<bar> + g * C" using yb by linarith
    finally show ?thesis using u by (simp add: mult_left_mono)
  qed
  have "\<bar>flSumR (a # xs) - sum_list (a # xs)\<bar>
          = \<bar>(roundToDouble (a + y) - (a + y)) + (y - sum_list xs)\<bar>"
    by (simp add: y_def algebra_simps)
  also have "\<dots> \<le> \<bar>roundToDouble (a + y) - (a + y)\<bar> + \<bar>y - sum_list xs\<bar>"
    by (rule abs_triangle_ineq)
  also have "\<dots> \<le> u * (\<bar>a\<bar> + g * C) + (g - 1) * C"
    using e1 ih by linarith
  also have "\<dots> = u * \<bar>a\<bar> + (g * (1 + u) - 1) * C"
    by (simp add: algebra_simps)
  also have "\<dots> \<le> (g * (1 + u) - 1) * \<bar>a\<bar> + (g * (1 + u) - 1) * C"
  proof -
    have "u \<le> g * (1 + u) - 1"
    proof -
      have "1 * (1 + u) \<le> g * (1 + u)" using g u by (intro mult_right_mono) simp_all
      then show ?thesis by simp
    qed
    then have "u * \<bar>a\<bar> \<le> (g * (1 + u) - 1) * \<bar>a\<bar>" by (intro mult_right_mono) simp_all
    then show ?thesis by simp
  qed
  also have "\<dots> = ((1 + u) ^ length (a # xs) - 1) * sum_list (map abs (a # xs))"
    by (simp add: g_def C_def algebra_simps)
  finally show ?case by (simp add: u_def)
qed

subsection \<open>Doubles\<close>

lemma maxDouble_nonneg: "0 \<le> maxDouble"
  by (simp add: maxDouble_def)

lemma isDouble_fromRounded: "isDouble (fromRounded (roundToDouble q))"
  by (auto simp: fromRounded_def roundToDouble_idem abs_le_iff)

lemma isDouble_add: "isDouble ((a::double) + b)"
  by (cases a; cases b) (simp_all add: plus_double_def isDouble_fromRounded)

lemma isDouble_zero: "isDouble 0"
  by (simp add: zero_double_def roundToDouble_def maxDouble_nonneg)

lemma double_add_zero: "isDouble a \<Longrightarrow> a + 0 = a"
  by (cases a) (auto simp: plus_double_def zero_double_def fromRounded_def abs_le_iff)

lemma double_zero_add: "isDouble a \<Longrightarrow> 0 + a = a"
  by (cases a) (auto simp: plus_double_def zero_double_def fromRounded_def abs_le_iff)

lemma double_zero_not_less: "\<not> (0::double) < 0"
  by (simp add: less_double_def zero_double_def)

lemma double_add_Finite:
  assumes "(a::double) + b = Finite r"
  shows "isFinite a \<and> isFinite b \<and> r = roundToDouble (ratOf a + ratOf b)"
  using assms
  by (cases a; cases b) (auto simp: plus_double_def fromRounded_def split: if_splits)

lemma double_add_not_NaN:
  "isFinite a \<Longrightarrow> isFinite b \<Longrightarrow> (a::double) + b \<noteq> NotANumber"
  by (cases a; cases b) (auto simp: plus_double_def fromRounded_def)

lemma double_add_NaN_iff:
  "(a::double) + b = NotANumber \<longleftrightarrow>
     a = NotANumber \<or> b = NotANumber \<or> (a = PosInf \<and> b = NegInf) \<or> (a = NegInf \<and> b = PosInf)"
  by (cases a; cases b) (auto simp: plus_double_def fromRounded_def)

lemma foldl_plus_Finite:
  "foldl (+) (a::double) ds = Finite r \<Longrightarrow>
     isFinite a \<and> list_all isFinite ds \<and> r = flSum (ratOf a) (map ratOf ds)"
proof (induction ds arbitrary: a)
  case Nil
  then show ?case by simp
next
  case (Cons d ds)
  from Cons.prems have "foldl (+) (a + d) ds = Finite r" by simp
  from Cons.IH [OF this] have f: "isFinite (a + d)" and l: "list_all isFinite ds"
    and r: "r = flSum (ratOf (a + d)) (map ratOf ds)" by simp_all
  from f obtain x where x: "a + d = Finite x" by (cases "a + d") simp_all
  from double_add_Finite [OF x] x r l show ?case by simp
qed

lemma foldr_plus_Finite:
  "foldr (+) ds (0::double) = Finite r \<Longrightarrow>
     list_all isFinite ds \<and> r = flSumR (map ratOf ds)"
proof (induction ds arbitrary: r)
  case Nil
  then show ?case by (simp add: zero_double_def)
next
  case (Cons d ds)
  from Cons.prems have e: "d + foldr (+) ds 0 = Finite r" by simp
  from double_add_Finite [OF e] have fd: "isFinite d" and fr: "isFinite (foldr (+) ds 0)"
    and r: "r = roundToDouble (ratOf d + ratOf (foldr (+) ds 0))" by simp_all
  from fr obtain y where y: "foldr (+) ds 0 = Finite y" by (cases "foldr (+) ds 0") simp_all
  from Cons.IH [OF y] y r fd show ?case by simp
qed

subsection \<open>Closed forms of the loop, for every number type\<close>

lemma foldl_totalIncome_fold:
  "totalIncome (foldl processTransaction acc ts) =
     foldl (+) (totalIncome acc) (map amount (filter (\<lambda>t. 0 < amount t) ts))"
  by (induction ts arbitrary: acc) (simp_all add: processTransaction_def)

lemma foldl_totalExpenditure_fold:
  "totalExpenditure (foldl processTransaction acc ts) =
     foldl (+) (totalExpenditure acc) (map amount (filter (\<lambda>t. \<not> 0 < amount t) ts))"
  by (induction ts arbitrary: acc) (simp_all add: processTransaction_def)

lemma foldl_category_fold:
  assumes "\<forall>t \<in> set ts. type t \<in> fst ` set (expenditureByCategory acc)"
    and "map_of (expenditureByCategory acc) c = Some (Num x)"
  shows "map_of (expenditureByCategory (foldl processTransaction acc ts)) c =
           Some (Num (foldl (+) x
             (map amount (filter (\<lambda>t. \<not> 0 < amount t \<and> type t = c) ts))))"
  using assms
proof (induction ts arbitrary: acc x)
  case Nil
  then show ?case by simp
next
  case (Cons t ts)
  let ?acc = "processTransaction acc t"
  have k: "map fst (expenditureByCategory ?acc) = map fst (expenditureByCategory acc)"
    using Cons.prems by (simp add: processTransaction_keys)
  then have "fst ` set (expenditureByCategory ?acc) = fst ` set (expenditureByCategory acc)"
    by (metis set_map)
  with Cons.prems have a: "\<forall>t' \<in> set ts. type t' \<in> fst ` set (expenditureByCategory ?acc)"
    by simp
  show ?case
  proof (cases "\<not> 0 < amount t \<and> type t = c")
    case True
    with Cons.prems have b: "map_of (expenditureByCategory ?acc) c = Some (Num (x + amount t))"
      by (simp add: processTransaction_def map_of_add_assign_same)
    from Cons.IH [OF a b] True show ?thesis by simp
  next
    case False
    then have "type t = c \<longrightarrow> 0 < amount t" by blast
    with Cons.prems have b: "map_of (expenditureByCategory ?acc) c = Some (Num x)"
      by (simp add: processTransaction_other)
    from Cons.IH [OF a b] False show ?thesis by auto
  qed
qed

lemma alist_of_keys:
  "map fst d = ks \<Longrightarrow> distinct ks \<Longrightarrow> \<forall>k \<in> set ks. map_of d k = Some (f k)
     \<Longrightarrow> d = map (\<lambda>k. (k, f k)) ks"
proof (induction ks arbitrary: d)
  case Nil
  then show ?case by simp
next
  case (Cons k ks)
  from Cons.prems(1) obtain p d' where d: "d = p # d'" and p: "fst p = k" and d': "map fst d' = ks"
    by (cases d) auto
  from Cons.prems(3) d p have v: "snd p = f k" by (cases p) auto
  have "\<forall>k' \<in> set ks. map_of d' k' = Some (f k')"
  proof
    fix k' assume k': "k' \<in> set ks"
    with Cons.prems(2) have "k' \<noteq> k" by auto
    with Cons.prems(3) k' d p show "map_of d' k' = Some (f k')" by (cases p) auto
  qed
  with Cons.IH [OF d'] Cons.prems(2) have "d' = map (\<lambda>k. (k, f k)) ks" by simp
  with d p v show ?case by (cases p) simp
qed

lemma sumValues_Num:
  "sumValues (map (\<lambda>k. (k, Num (f k))) ks) = Num (foldr (+) (map f ks) 0)"
  by (induction ks) simp_all

lemma distinct_CATEGORIES: "distinct CATEGORIES"
  by (simp add: CATEGORIES_def)

text \<open>The summary in terms of its sorted transactions.\<close>

lemma analyze_initialTotals:
  "total_income (analyzeTransactions getTime raws ib) =
     totalIncome (foldl processTransaction initialTotals
       (transaction_details (analyzeTransactions getTime raws ib)))"
  "total_expenditure (analyzeTransactions getTime raws ib) =
     totalExpenditure (foldl processTransaction initialTotals
       (transaction_details (analyzeTransactions getTime raws ib)))"
  "expenditure_by_category (analyzeTransactions getTime raws ib) =
     expenditureByCategory (foldl processTransaction initialTotals
       (transaction_details (analyzeTransactions getTime raws ib)))"
  by (simp_all add: analyzeTransactions_def Let_def initialTotals_def)

lemma types_details_in_CATEGORIES:
  "\<forall>t \<in> set (transaction_details (analyzeTransactions getTime raws ib)).
     type t \<in> set CATEGORIES"
  by (simp add: transaction_details_eq types_sorted_in_CATEGORIES)

lemma total_income_fold:
  "total_income (analyzeTransactions getTime raws ib) =
     foldl (+) 0 (map amount (filter (\<lambda>t. 0 < amount t)
       (transaction_details (analyzeTransactions getTime raws ib))))"
  unfolding analyze_initialTotals(1) foldl_totalIncome_fold by (simp add: initialTotals_def)

lemma total_expenditure_fold:
  "total_expenditure (analyzeTransactions getTime raws ib) =
     foldl (+) 0 (map amount (filter (\<lambda>t. \<not> 0 < amount t)
       (transaction_details (analyzeTransactions getTime raws ib))))"
  unfolding analyze_initialTotals(2) foldl_totalExpenditure_fold by (simp add: initialTotals_def)

lemma expenditure_by_category_fold:
  "expenditure_by_category (analyzeTransactions getTime raws ib) =
     map (\<lambda>c. (c, Num (foldl (+) 0 (map amount (filter (\<lambda>t. \<not> 0 < amount t \<and> type t = c)
       (transaction_details (analyzeTransactions getTime raws ib))))))) CATEGORIES"
proof -
  let ?ts = "transaction_details (analyzeTransactions getTime raws ib)"
  let ?d = "expenditureByCategory (foldl processTransaction initialTotals ?ts)"
  have ty: "\<forall>t \<in> set ?ts. type t \<in> fst ` set (expenditureByCategory initialTotals)"
    using types_details_in_CATEGORIES [of getTime raws ib]
    by (simp add: initialTotals_def init_keys)
  have keys: "map fst ?d = CATEGORIES"
    using foldl_processTransaction_keys [OF ty] by (simp add: initialTotals_def keys_zeroByCategory)
  have vals: "\<forall>c \<in> set CATEGORIES. map_of ?d c =
      Some (Num (foldl (+) 0 (map amount (filter (\<lambda>t. \<not> 0 < amount t \<and> type t = c) ?ts))))"
  proof
    fix c assume "c \<in> set CATEGORIES"
    then have "map_of (expenditureByCategory initialTotals) c = Some (Num 0)"
      by (simp add: initialTotals_def map_of_zeroByCategory)
    from foldl_category_fold [OF ty this]
    show "map_of ?d c =
      Some (Num (foldl (+) 0 (map amount (filter (\<lambda>t. \<not> 0 < amount t \<and> type t = c) ?ts))))" .
  qed
  from alist_of_keys [OF keys distinct_CATEGORIES vals] show ?thesis
    by (simp add: analyze_initialTotals(3))
qed

subsection \<open>The total against the sum of the per-category sums\<close>

lemma sum_list_indicator_0:
  "k \<notin> set cs \<Longrightarrow> sum_list (map (\<lambda>c. if k = c then x else 0) cs) = (0::rat)"
  by (induction cs) auto

lemma sum_list_indicator:
  "distinct cs \<Longrightarrow> k \<in> set cs \<Longrightarrow>
     sum_list (map (\<lambda>c. if k = c then x else 0) cs) = (x::rat)"
  by (induction cs) (auto simp: sum_list_indicator_0)

lemma sum_list_partition:
  fixes f :: "'b \<Rightarrow> rat"
  assumes "distinct cs" and "\<forall>t \<in> set ts. key t \<in> set cs"
  shows "sum_list (map (\<lambda>c. sum_list (map f (filter (\<lambda>t. key t = c) ts))) cs) =
           sum_list (map f ts)"
  using assms(2)
proof (induction ts)
  case Nil
  then show ?case by simp
next
  case (Cons t ts)
  have "sum_list (map (\<lambda>c. sum_list (map f (filter (\<lambda>t. key t = c) (t # ts)))) cs) =
        sum_list (map (\<lambda>c. (if key t = c then f t else 0) +
                           sum_list (map f (filter (\<lambda>t. key t = c) ts))) cs)"
    by (intro arg_cong [where f = sum_list] map_cong) auto
  also have "\<dots> = sum_list (map (\<lambda>c. if key t = c then f t else 0) cs) +
                   sum_list (map (\<lambda>c. sum_list (map f (filter (\<lambda>t. key t = c) ts))) cs)"
    by (rule sum_list_addf)
  also have "\<dots> = f t + sum_list (map f ts)"
    using Cons assms(1) by (simp add: sum_list_indicator)
  finally show ?case by simp
qed

lemma partition_error:
  fixes xs :: "'k \<Rightarrow> rat list"
  assumes len: "\<forall>c \<in> set cs. length (xs c) \<le> n"
    and X: "sum_list (map (\<lambda>c. sum_list (xs c)) cs) = X"
    and A: "sum_list (map (\<lambda>c. sum_list (map abs (xs c))) cs) = A"
    and T: "\<bar>T - X\<bar> \<le> ((1 + unitRoundoff) ^ n - 1) * A"
  shows "\<bar>T - flSumR (map (\<lambda>c. flSum 0 (xs c)) cs)\<bar>
           \<le> 2 * ((1 + unitRoundoff) ^ (n + length cs) - 1) * A"
proof -
  define g where "g = (1 + unitRoundoff) ^ n"
  define h where "h = (1 + unitRoundoff) ^ length cs"
  define e where "e = (\<lambda>c. flSum 0 (xs c))"
  define a where "a = (\<lambda>c. sum_list (map abs (xs c)))"
  define S where "S = flSumR (map e cs)"
  have g: "1 \<le> g" unfolding g_def by (rule growth_ge_1)
  have h: "1 \<le> h" unfolding h_def by (rule growth_ge_1)
  have a0: "0 \<le> a c" for c unfolding a_def by (rule sum_list_nonneg) auto
  have A0: "0 \<le> A" unfolding A [symmetric] by (rule sum_list_nonneg) (auto simp: a0 [unfolded a_def])
  have Aa: "sum_list (map a cs) = A" using A by (simp add: a_def)
  have e1: "\<bar>e c - sum_list (xs c)\<bar> \<le> (g - 1) * a c" if "c \<in> set cs" for c
  proof -
    have "\<bar>e c - sum_list (xs c)\<bar> \<le> ((1 + unitRoundoff) ^ length (xs c) - 1) * a c"
      using flSum_error [of 0 "xs c"] by (simp add: e_def a_def)
    also have "\<dots> \<le> (g - 1) * a c"
      using that len growth_mono [of "length (xs c)" n] a0 [of c]
      by (intro mult_right_mono) (simp_all add: g_def)
    finally show ?thesis .
  qed
  have e2: "\<bar>e c\<bar> \<le> g * a c" if "c \<in> set cs" for c
  proof -
    have "\<bar>sum_list (xs c)\<bar> \<le> a c" unfolding a_def by (rule sum_list_abs)
    moreover have "\<bar>e c\<bar> \<le> \<bar>e c - sum_list (xs c)\<bar> + \<bar>sum_list (xs c)\<bar>" by simp
    ultimately have "\<bar>e c\<bar> \<le> (g - 1) * a c + a c" using e1 [OF that] by linarith
    then show ?thesis by (simp add: algebra_simps)
  qed
  have s3: "\<bar>sum_list (map e cs) - X\<bar> \<le> (g - 1) * A"
  proof -
    have "sum_list (map e cs) - X = sum_list (map (\<lambda>c. e c - sum_list (xs c)) cs)"
      unfolding X [symmetric] by (simp add: sum_list_subtractf)
    also have "\<bar>\<dots>\<bar> \<le> sum_list (map abs (map (\<lambda>c. e c - sum_list (xs c)) cs))"
      by (rule sum_list_abs)
    also have "\<dots> = sum_list (map (\<lambda>c. \<bar>e c - sum_list (xs c)\<bar>) cs)"
      by (simp add: comp_def)
    also have "\<dots> \<le> sum_list (map (\<lambda>c. (g - 1) * a c) cs)"
      by (intro sum_list_mono e1)
    also have "\<dots> = (g - 1) * A" by (simp add: sum_list_const_mult Aa)
    finally show ?thesis .
  qed
  have s4: "\<bar>S - sum_list (map e cs)\<bar> \<le> (h - 1) * (g * A)"
  proof -
    have "\<bar>S - sum_list (map e cs)\<bar> \<le> (h - 1) * sum_list (map abs (map e cs))"
      using flSumR_error [of "map e cs"] by (simp add: S_def h_def)
    also have "sum_list (map abs (map e cs)) = sum_list (map (\<lambda>c. \<bar>e c\<bar>) cs)"
      by (simp add: comp_def)
    also have "\<dots> \<le> sum_list (map (\<lambda>c. g * a c) cs)"
      by (intro sum_list_mono e2)
    also have "\<dots> = g * A" by (simp add: sum_list_const_mult Aa)
    finally show ?thesis using h by (simp add: mult_left_mono)
  qed
  have "\<bar>T - S\<bar> \<le> \<bar>T - X\<bar> + \<bar>sum_list (map e cs) - X\<bar> + \<bar>S - sum_list (map e cs)\<bar>"
    by linarith
  also have "\<dots> \<le> (g - 1) * A + (g - 1) * A + (h - 1) * (g * A)"
  proof -
    have "\<bar>T - X\<bar> \<le> (g - 1) * A" using T by (simp add: g_def)
    with s3 s4 show ?thesis by linarith
  qed
  also have "\<dots> = (g * h + g - 2) * A" by (simp add: algebra_simps)
  also have "\<dots> \<le> (2 * (g * h) - 2) * A"
  proof -
    have "g * 1 \<le> g * h" using g h by (intro mult_left_mono) simp_all
    then have "g * h + g - 2 \<le> 2 * (g * h) - 2" by simp
    then show ?thesis using A0 by (rule mult_right_mono)
  qed
  also have "\<dots> = 2 * ((1 + unitRoundoff) ^ (n + length cs) - 1) * A"
    by (simp add: g_def h_def power_add algebra_simps)
  finally show ?thesis by (simp add: S_def e_def)
qed

subsection \<open>Exact and overflowing sums\<close>

lemma roundToDouble_minus: "roundToDouble (- q) = - roundToDouble q"
  by (simp add: roundToDouble_def Let_def)

lemma roundToDouble_grid:
  assumes "2 ^ 52 \<le> m" and "m < 2 ^ 53"
  shows "roundToDouble (of_int m * 2 powi e) = of_int m * 2 powi e"
proof -
  define r :: rat where "r = of_int m * 2 powi e"
  have pe: "(0::rat) < 2 powi e" by simp
  have mpos: "0 < m" using assms(1) by (smt (verit) zero_less_power)
  have rpos: "0 < r" using mpos pe by (simp add: r_def)
  have "of_int (2 ^ 52) * 2 powi e \<le> (of_int m :: rat) * 2 powi e"
    by (intro mult_right_mono) (use assms(1) in \<open>simp_all only: of_int_le_iff\<close>, simp)
  then have lo: "2 powi (e + 52) \<le> \<bar>r\<bar>" using rpos by (simp add: r_def power_int_add)
  have "(of_int m :: rat) * 2 powi e < of_int (2 ^ 53) * 2 powi e"
    by (intro mult_strict_right_mono) (use assms(2) in \<open>simp_all only: of_int_less_iff\<close>, simp)
  then have hi: "\<bar>r\<bar> < 2 powi (e + 52 + 1)" using rpos by (simp add: r_def power_int_add)
  have ar: "\<bar>r\<bar> = r" using rpos by simp
  have "ilog2 r = e + 52" using ilog2_unique [OF lo hi] by (simp only: ar)
  then have e': "ilog2 r - 52 = e" by simp
  have x: "r / 2 powi e = of_int m" by (simp add: r_def)
  have "roundToDouble r = sgn r * of_int (roundHalfEven (\<bar>r\<bar> / 2 powi (ilog2 \<bar>r\<bar> - 52)))
          * 2 powi (ilog2 \<bar>r\<bar> - 52)"
    using rpos by (simp add: roundToDouble_def Let_def)
  also have "\<dots> = sgn r * of_int m * 2 powi e"
    by (simp only: ar e' x roundHalfEven_of_int)
  also have "\<dots> = r" using rpos by (simp add: r_def)
  finally show ?thesis by (simp add: r_def)
qed

lemma fromRounded_overflow:
  assumes "maxDouble < q - \<bar>q\<bar> / 2 ^ 53"
  shows "fromRounded (roundToDouble q) = PosInf"
proof -
  have "\<bar>roundToDouble q - q\<bar> \<le> \<bar>q\<bar> / 2 ^ 53" by (rule roundToDouble_error)
  then have "q - \<bar>q\<bar> / 2 ^ 53 \<le> roundToDouble q" by linarith
  with assms show ?thesis by (simp add: fromRounded_def)
qed

lemma fromRounded_overflow_neg:
  assumes "q + \<bar>q\<bar> / 2 ^ 53 < - maxDouble"
  shows "fromRounded (roundToDouble q) = NegInf"
proof -
  have "\<bar>roundToDouble q - q\<bar> \<le> \<bar>q\<bar> / 2 ^ 53" by (rule roundToDouble_error)
  then have "roundToDouble q \<le> q + \<bar>q\<bar> / 2 ^ 53" by linarith
  with assms maxDouble_nonneg show ?thesis by (simp add: fromRounded_def)
qed

lemma maxDouble_grid: "maxDouble = of_int (2 ^ 53 - 1) * 2 powi 971"
  by (simp add: maxDouble_def)

lemma d1e308_grid: "d1e308 = of_int 5010420900022432 * 2 powi 971"
  by (simp add: d1e308_def)

lemma d1e308_bounds: "0 < d1e308" "d1e308 \<le> maxDouble"
  by (simp_all add: d1e308_def maxDouble_def)

lemma round_d1e308: "roundToDouble d1e308 = d1e308"
  unfolding d1e308_grid by (rule roundToDouble_grid) simp_all

lemma isDouble_d1e308: "isDouble (Finite d1e308)" "isDouble (Finite (- d1e308))"
  using d1e308_bounds by (simp_all add: round_d1e308 roundToDouble_minus)

lemma d1e308_zero_add:
  "0 + Finite d1e308 = Finite d1e308" "0 + Finite (- d1e308) = Finite (- d1e308)"
  by (rule double_zero_add, rule isDouble_d1e308)+

lemma d1e308_twice:
  "Finite d1e308 + Finite d1e308 = PosInf"
  "Finite (- d1e308) + Finite (- d1e308) = NegInf"
proof -
  have "maxDouble < (d1e308 + d1e308) - \<bar>d1e308 + d1e308\<bar> / 2 ^ 53"
    by (simp add: d1e308_def maxDouble_def)
  then show "Finite d1e308 + Finite d1e308 = PosInf"
    by (simp add: plus_double_def fromRounded_overflow)
  have "(- d1e308 + - d1e308) + \<bar>- d1e308 + - d1e308\<bar> / 2 ^ 53 < - maxDouble"
    by (simp add: d1e308_def maxDouble_def)
  then show "Finite (- d1e308) + Finite (- d1e308) = NegInf"
    by (simp add: plus_double_def fromRounded_overflow_neg)
qed

lemma overflowRaws_details:
  "transaction_details (analyzeTransactions sampleGetTime overflowRaws None) =
     [\<lparr>date = ''2024-01-01'', description = ''Payroll'', amount = Finite d1e308,
       type = ''transfer''\<rparr>,
      \<lparr>date = ''2024-01-01'', description = ''Payroll'', amount = Finite d1e308,
       type = ''transfer''\<rparr>,
      \<lparr>date = ''2024-01-01'', description = ''Coffee'', amount = Finite (- d1e308),
       type = ''food''\<rparr>,
      \<lparr>date = ''2024-01-01'', description = ''Coffee'', amount = Finite (- d1e308),
       type = ''food''\<rparr>]"
  unfolding transaction_details_eq by code_simp

lemma overflowRaws_signs:
  "(0::double) < Finite d1e308" "\<not> (0::double) < Finite (- d1e308)"
  using d1e308_bounds(1) by (simp_all add: less_double_def zero_double_def)

lemma overflowRaws_totals:
  "total_income (analyzeTransactions sampleGetTime overflowRaws None) = PosInf"
  "total_expenditure (analyzeTransactions sampleGetTime overflowRaws None) = NegInf"
  "initial_balance (analyzeTransactions sampleGetTime overflowRaws None) = 0"
proof -
  show "total_income (analyzeTransactions sampleGetTime overflowRaws None) = PosInf"
    unfolding total_income_fold overflowRaws_details
    by (simp add: overflowRaws_signs d1e308_zero_add d1e308_twice)
  show "total_expenditure (analyzeTransactions sampleGetTime overflowRaws None) = NegInf"
    unfolding total_expenditure_fold overflowRaws_details
    by (simp add: overflowRaws_signs d1e308_zero_add d1e308_twice)
  show "initial_balance (analyzeTransactions sampleGetTime overflowRaws None) = 0"
    by (simp add: analyzeTransactions_def Let_def)
qed

text \<open>
  Claim C1, as stated, fails on overflow. Two credits and two debits of \<open>1e308\<close> give
  \<open>total_income = Infinity\<close> and \<open>total_expenditure = -Infinity\<close>, so \<open>final_balance\<close> is
  \<open>NaN\<close>, and \<open>NaN == NaN\<close> is false.
\<close>

theorem balance_identity_counterexample:
  "total_income (analyzeTransactions sampleGetTime overflowRaws None) = PosInf \<and>
   total_expenditure (analyzeTransactions sampleGetTime overflowRaws None) = NegInf \<and>
   final_balance (analyzeTransactions sampleGetTime overflowRaws None) = NotANumber \<and>
   \<not> jsEquals (final_balance (analyzeTransactions sampleGetTime overflowRaws None))
       (initial_balance (analyzeTransactions sampleGetTime overflowRaws None)
        + total_income (analyzeTransactions sampleGetTime overflowRaws None)
        + total_expenditure (analyzeTransactions sampleGetTime overflowRaws None))"
proof -
  have "final_balance (analyzeTransactions sampleGetTime overflowRaws None) = NotANumber"
    unfolding final_balance_expression overflowRaws_totals
    by (simp add: plus_double_def zero_double_def)
  then show ?thesis by (simp add: overflowRaws_totals jsEquals_def)
qed

text \<open>
  Claim C1, as amended. For every sequence of raw transactions and every initial
  balance, \<open>final_balance\<close> is the value of
  \<open>initial_balance + total_income + total_expenditure\<close>, and it compares \<open>==\<close> to that
  sum exactly when it is not \<open>NaN\<close>; in particular the identity holds whenever
  \<open>initial_balance\<close>, \<open>total_income\<close> and \<open>total_expenditure\<close> are finite.
\<close>

theorem balance_identity_double:
  fixes raws :: "double RawTransaction list"
  shows "final_balance (analyzeTransactions getTime raws ib) =
           initial_balance (analyzeTransactions getTime raws ib)
           + total_income (analyzeTransactions getTime raws ib)
           + total_expenditure (analyzeTransactions getTime raws ib)
       \<and> (jsEquals (final_balance (analyzeTransactions getTime raws ib))
             (initial_balance (analyzeTransactions getTime raws ib)
              + total_income (analyzeTransactions getTime raws ib)
              + total_expenditure (analyzeTransactions getTime raws ib))
           \<longleftrightarrow> final_balance (analyzeTransactions getTime raws ib) \<noteq> NotANumber)
       \<and> (isFinite (initial_balance (analyzeTransactions getTime raws ib)) \<and>
          isFinite (total_income (analyzeTransactions getTime raws ib)) \<and>
          isFinite (total_expenditure (analyzeTransactions getTime raws ib))
          \<longrightarrow> jsEquals (final_balance (analyzeTransactions getTime raws ib))
                (initial_balance (analyzeTransactions getTime raws ib)
                 + total_income (analyzeTransactions getTime raws ib)
                 + total_expenditure (analyzeTransactions getTime raws ib)))"
proof -
  let ?r = "analyzeTransactions getTime raws ib"
  have e: "final_balance ?r = initial_balance ?r + total_income ?r + total_expenditure ?r"
    by (rule final_balance_expression)
  have j: "jsEquals (final_balance ?r)
             (initial_balance ?r + total_income ?r + total_expenditure ?r)
           \<longleftrightarrow> final_balance ?r \<noteq> NotANumber"
    unfolding e [symmetric] by (simp add: jsEquals_def)
  have f: "final_balance ?r \<noteq> NotANumber"
    if "isFinite (initial_balance ?r)" "isFinite (total_income ?r)"
       "isFinite (total_expenditure ?r)"
  proof -
    from that(1,2) have "initial_balance ?r + total_income ?r \<noteq> NotANumber"
      by (rule double_add_not_NaN)
    moreover from that(3) have "total_expenditure ?r \<noteq> NotANumber"
      "total_expenditure ?r \<noteq> PosInf" "total_expenditure ?r \<noteq> NegInf"
      by (cases "total_expenditure ?r"; simp)+
    ultimately show ?thesis unfolding e by (simp add: double_add_NaN_iff)
  qed
  from e j f show ?thesis by blast
qed

theorem balance_identity_double_witness:
  "final_balance (analyzeTransactions sampleGetTime zeroRaws (Some (Finite 100))) =
     Finite (4199 / 2) \<and>
   isFinite (initial_balance (analyzeTransactions sampleGetTime zeroRaws (Some (Finite 100)))) \<and>
   isFinite (total_income (analyzeTransactions sampleGetTime zeroRaws (Some (Finite 100)))) \<and>
   isFinite (total_expenditure (analyzeTransactions sampleGetTime zeroRaws (Some (Finite 100)))) \<and>
   jsEquals (final_balance (analyzeTransactions sampleGetTime zeroRaws (Some (Finite 100))))
     (initial_balance (analyzeTransactions sampleGetTime zeroRaws (Some (Finite 100)))
      + total_income (analyzeTransactions sampleGetTime zeroRaws (Some (Finite 100)))
      + total_expenditure (analyzeTransactions sampleGetTime zeroRaws (Some (Finite 100))))"
proof -
  have v: "final_balance (analyzeTransactions sampleGetTime zeroRaws (Some (Finite 100))) =
     Finite (4199 / 2)" by code_simp
  have a: "isFinite (initial_balance (analyzeTransactions sampleGetTime zeroRaws (Some (Finite 100))))"
    by code_simp
  have b: "isFinite (total_income (analyzeTransactions sampleGetTime zeroRaws (Some (Finite 100))))"
    by code_simp
  have c: "isFinite (total_expenditure (analyzeTransactions sampleGetTime zeroRaws (Some (Finite 100))))"
    by code_simp
  from balance_identity_double [of sampleGetTime zeroRaws "Some (Finite 100)"] a b c v
  show ?thesis by blast
qed

subsection \<open>The total and the sum of the entries, in doubles\<close>

lemma length_CATEGORIES: "length CATEGORIES = 10"
  by (simp add: CATEGORIES_def)

lemma ratOf_zero: "ratOf (0::double) = 0"
  by (simp add: zero_double_def)

text \<open>
  Claim C2, as amended. For every sequence of raw transactions and every initial
  balance, the values of \<open>expenditure_by_category\<close> are numbers (no key is ever
  missing, so their sum is not the \<open>NaN\<close> of a missing property), and whenever
  \<open>total_expenditure\<close> and the sum of the values are finite they agree up to rounding:
  they differ by at most \<open>2 * ((1 + u) ^ (n + 10) - 1) * A\<close>, where \<open>u = 2 ^ -53\<close> is the
  unit roundoff, \<open>n\<close> the number of expenditures and \<open>A\<close> the sum of the absolute
  values of their amounts.
\<close>

theorem category_sum_tolerance:
  fixes raws :: "double RawTransaction list"
  shows "(\<exists>d. sumValues (expenditure_by_category (analyzeTransactions getTime raws ib)) = Num d)
       \<and> (\<forall>T S.
            total_expenditure (analyzeTransactions getTime raws ib) = Finite T \<longrightarrow>
            sumValues (expenditure_by_category (analyzeTransactions getTime raws ib)) =
              Num (Finite S) \<longrightarrow>
            \<bar>T - S\<bar> \<le>
              2 * ((1 + unitRoundoff)
                     ^ (length (expenditureAmounts (analyzeTransactions getTime raws ib)) + 10)
                   - 1)
                * sum_list (map abs (expenditureAmounts (analyzeTransactions getTime raws ib))))"
proof -
  let ?r = "analyzeTransactions getTime raws ib"
  let ?exps = "expenditures ?r"
  define f where "f = (\<lambda>t :: double Transaction. ratOf (amount t))"
  define E where "E = (\<lambda>c. foldl (+) (0::double)
                        (map amount (filter (\<lambda>t. type t = c) ?exps)))"
  define xs where "xs = (\<lambda>c. map f (filter (\<lambda>t. type t = c) ?exps))"
  have ebc: "expenditure_by_category ?r = map (\<lambda>c. (c, Num (E c))) CATEGORIES"
    unfolding E_def expenditures_def filter_filter
    by (subst expenditure_by_category_fold) (simp add: conj_commute)
  have sv: "sumValues (expenditure_by_category ?r) = Num (foldr (+) (map E CATEGORIES) 0)"
    unfolding ebc by (rule sumValues_Num)
  have tot: "total_expenditure ?r = foldl (+) 0 (map amount ?exps)"
    unfolding expenditures_def by (rule total_expenditure_fold)
  have amounts: "expenditureAmounts ?r = map f ?exps"
    by (simp add: expenditureAmounts_def f_def)
  have types: "\<forall>t \<in> set ?exps. type t \<in> set CATEGORIES"
    using types_details_in_CATEGORIES [of getTime raws ib] by (simp add: expenditures_def)
  have bound: "\<bar>T - S\<bar> \<le>
      2 * ((1 + unitRoundoff) ^ (length (expenditureAmounts ?r) + 10) - 1)
        * sum_list (map abs (expenditureAmounts ?r))"
    if T: "total_expenditure ?r = Finite T"
      and S: "sumValues (expenditure_by_category ?r) = Num (Finite S)" for T S
  proof -
    from T tot have "foldl (+) 0 (map amount ?exps) = Finite T" by simp
    from foldl_plus_Finite [OF this]
    have T': "T = flSum 0 (expenditureAmounts ?r)"
      by (simp add: ratOf_zero amounts f_def comp_def)
    from S sv have "foldr (+) (map E CATEGORIES) 0 = Finite S" by simp
    from foldr_plus_Finite [OF this]
    have fin: "list_all isFinite (map E CATEGORIES)"
      and S': "S = flSumR (map ratOf (map E CATEGORIES))" by simp_all
    have e: "ratOf (E c) = flSum 0 (xs c)" if "c \<in> set CATEGORIES" for c
    proof -
      from fin that have "isFinite (E c)" by (simp add: list_all_iff)
      then obtain q where q: "E c = Finite q" by (cases "E c") simp_all
      then have "foldl (+) 0 (map amount (filter (\<lambda>t. type t = c) ?exps)) = Finite q"
        by (simp add: E_def)
      from foldl_plus_Finite [OF this] q show ?thesis
        by (simp add: ratOf_zero xs_def f_def comp_def)
    qed
    have S'': "S = flSumR (map (\<lambda>c. flSum 0 (xs c)) CATEGORIES)"
      unfolding S' map_map comp_def
      by (intro arg_cong [where f = flSumR] map_cong refl e)
    have len: "\<forall>c \<in> set CATEGORIES. length (xs c) \<le> length (expenditureAmounts ?r)"
      by (simp add: xs_def amounts)
    have X: "sum_list (map (\<lambda>c. sum_list (xs c)) CATEGORIES) = sum_list (expenditureAmounts ?r)"
      unfolding xs_def amounts
      by (rule sum_list_partition [OF distinct_CATEGORIES types])
    have A: "sum_list (map (\<lambda>c. sum_list (map abs (xs c))) CATEGORIES) =
             sum_list (map abs (expenditureAmounts ?r))"
      unfolding xs_def amounts map_map
      by (rule sum_list_partition [OF distinct_CATEGORIES types])
    have Tb: "\<bar>T - sum_list (expenditureAmounts ?r)\<bar> \<le>
        ((1 + unitRoundoff) ^ length (expenditureAmounts ?r) - 1)
          * sum_list (map abs (expenditureAmounts ?r))"
      using flSum_error [of 0 "expenditureAmounts ?r"] by (simp add: T')
    from partition_error [OF len X A Tb] show ?thesis
      by (simp add: S'' length_CATEGORIES)
  qed
  from sv bound show ?thesis by blast
qed

text \<open>
  The doubles of the literals \<open>-0.1\<close>, \<open>-0.2\<close>, \<open>-0.3\<close>, \<open>-0.6\<close>, and the well-known sum
  \<open>0.1 + 0.2 = 0.30000000000000004\<close>, as the rounding of the model gives them.
\<close>

lemma toDouble_literals:
  "toDouble (- 1 / 10) = Finite (- 3602879701896397 / 36028797018963968)"
  "toDouble (- 2 / 10) = Finite (- 3602879701896397 / 18014398509481984)"
  "toDouble (- 3 / 10) = Finite (- 5404319552844595 / 18014398509481984)"
  "toDouble (- 6 / 10) = Finite (- 5404319552844595 / 9007199254740992)"
  "toDouble (1 / 10) + toDouble (2 / 10) = Finite (1351079888211149 / 4503599627370496)"
  by code_simp+

lemma roundingRaws_total:
  "total_expenditure (analyzeTransactions sampleGetTime roundingRaws None) =
     Finite (- 5404319552844596 / 9007199254740992)"
  by code_simp

lemma roundingRaws_by_category:
  "expenditure_by_category (analyzeTransactions sampleGetTime roundingRaws None) =
     [(''food'', Num (Finite (- 3602879701896397 / 36028797018963968))),
      (''shopping'', Num (Finite (- 1 / 2))),
      (''leisure'', Num 0), (''transport'', Num 0), (''utilities'', Num 0),
      (''healthcare'', Num 0), (''transfer'', Num 0), (''investment'', Num 0),
      (''subscription'', Num 0), (''unknown'', Num 0)]"
  by code_simp

lemma roundingRaws_sum:
  "sumValues
     [(''food'', Num (Finite (- 3602879701896397 / 36028797018963968))),
      (''shopping'', Num (Finite (- 1 / 2))),
      (''leisure'', Num 0), (''transport'', Num 0), (''utilities'', Num 0),
      (''healthcare'', Num 0), (''transfer'', Num 0), (''investment'', Num 0),
      (''subscription'', Num 0), (''unknown'', Num 0)] =
   Num (Finite (- 5404319552844595 / 9007199254740992))"
  by code_simp

text \<open>
  Claim C2, as stated, fails for the doubles the program computes with. For the
  expenditures \<open>-0.1\<close> (food), \<open>-0.2\<close> and \<open>-0.3\<close> (both shopping) the running total is
  \<open>((0 + -0.1) + -0.2) + -0.3 = -0.6000000000000001\<close>, while the entries are \<open>-0.1\<close> and
  \<open>-0.2 + -0.3 = -0.5\<close>, whose sum is \<open>-0.6\<close>.
\<close>

theorem category_sum_identity_counterexample:
  "total_expenditure (analyzeTransactions sampleGetTime roundingRaws None) =
     Finite (- 5404319552844596 / 9007199254740992) \<and>
   sumValues (expenditure_by_category (analyzeTransactions sampleGetTime roundingRaws None)) =
     Num (Finite (- 5404319552844595 / 9007199254740992)) \<and>
   \<not> jsEquals (total_expenditure (analyzeTransactions sampleGetTime roundingRaws None))
       (Finite (- 5404319552844595 / 9007199254740992)) \<and>
   sumValues (expenditure_by_category (analyzeTransactions sampleGetTime roundingRaws None)) \<noteq>
     Num (total_expenditure (analyzeTransactions sampleGetTime roundingRaws None))"
  unfolding roundingRaws_total roundingRaws_by_category roundingRaws_sum
  by (simp add: jsEquals_def)

text \<open>At that input the two differ by \<open>2 ^ -53\<close>, within the bound.\<close>

lemma roundingRaws_amounts:
  "expenditureAmounts (analyzeTransactions sampleGetTime roundingRaws None) =
     [- 3602879701896397 / 36028797018963968, - 3602879701896397 / 18014398509481984,
      - 5404319552844595 / 18014398509481984]"
  unfolding expenditureAmounts_def expenditures_def transaction_details_eq by code_simp

theorem category_sum_tolerance_witness:
  "total_expenditure (analyzeTransactions sampleGetTime roundingRaws None) =
     Finite (- 5404319552844596 / 9007199254740992) \<and>
   sumValues (expenditure_by_category (analyzeTransactions sampleGetTime roundingRaws None)) =
     Num (Finite (- 5404319552844595 / 9007199254740992)) \<and>
   \<bar>(- 5404319552844596 / 9007199254740992 :: rat) - (- 5404319552844595 / 9007199254740992)\<bar>
     = 1 / 2 ^ 53 \<and>
   \<bar>(- 5404319552844596 / 9007199254740992 :: rat) - (- 5404319552844595 / 9007199254740992)\<bar>
     \<le> 2 * ((1 + unitRoundoff) ^ (3 + 10) - 1)
         * sum_list (map abs [- 3602879701896397 / 36028797018963968 :: rat,
                              - 3602879701896397 / 18014398509481984,
                              - 5404319552844595 / 18014398509481984])"
proof -
  have T: "total_expenditure (analyzeTransactions sampleGetTime roundingRaws None) =
     Finite (- 5404319552844596 / 9007199254740992)" by (rule roundingRaws_total)
  have S: "sumValues (expenditure_by_category (analyzeTransactions sampleGetTime roundingRaws None)) =
     Num (Finite (- 5404319552844595 / 9007199254740992))"
    unfolding roundingRaws_by_category by (rule roundingRaws_sum)
  have d: "\<bar>(- 5404319552844596 / 9007199254740992 :: rat) - (- 5404319552844595 / 9007199254740992)\<bar>
     = 1 / 2 ^ 53" by simp
  from category_sum_tolerance [of sampleGetTime roundingRaws None] T S
  have "\<bar>(- 5404319552844596 / 9007199254740992 :: rat) - (- 5404319552844595 / 9007199254740992)\<bar>
     \<le> 2 * ((1 + unitRoundoff)
                ^ (length (expenditureAmounts (analyzeTransactions sampleGetTime roundingRaws None)) + 10)
              - 1)
         * sum_list (map abs (expenditureAmounts (analyzeTransactions sampleGetTime roundingRaws None)))"
    by blast
  then have "\<bar>(- 5404319552844596 / 9007199254740992 :: rat) - (- 5404319552844595 / 9007199254740992)\<bar>
     \<le> 2 * ((1 + unitRoundoff) ^ (3 + 10) - 1)
         * sum_list (map abs [- 3602879701896397 / 36028797018963968 :: rat,
                              - 3602879701896397 / 18014398509481984,
                              - 5404319552844595 / 18014398509481984])"
    unfolding roundingRaws_amounts by simp
  with T S d show ?thesis by blast
qed

section \<open>Supplementary views: proofs\<close>

lemma foldl_countTransaction:
  fixes ts :: "('a::{zero,ord}) Transaction list"
  assumes "\<forall>t \<in> set ts. type t \<in> fst ` set counts"
  shows "map fst (foldl countTransaction counts ts) = map fst counts \<and>
         sumValues (foldl countTransaction counts ts) =
           number_add (sumValues counts) (Num (length (filter (\<lambda>t. amount t < 0) ts)))"
  using assms
proof (induction ts arbitrary: counts)
  case Nil
  then show ?case by (simp add: number_add_zero)
next
  case (Cons t ts)
  let ?c = "countTransaction counts t"
  have k: "map fst ?c = map fst counts"
    using Cons.prems by (simp add: countTransaction_def keys_add_assign)
  then have "fst ` set ?c = fst ` set counts" by (metis set_map)
  with Cons.prems have "\<forall>t' \<in> set ts. type t' \<in> fst ` set ?c" by simp
  from Cons.IH [OF this] have ih:
    "map fst (foldl countTransaction ?c ts) = map fst ?c"
    "sumValues (foldl countTransaction ?c ts) =
       number_add (sumValues ?c) (Num (length (filter (\<lambda>t. amount t < 0) ts)))"
    by simp_all
  have s: "sumValues ?c = number_add (sumValues counts) (Num (if amount t < 0 then 1 else 0))"
    using Cons.prems by (simp add: countTransaction_def sumValues_add_assign number_add_zero)
  have "number_add (number_add (sumValues counts) (Num (if amount t < 0 then 1 else 0)))
          (Num (length (filter (\<lambda>t. amount t < 0) ts))) =
        number_add (sumValues counts) (Num (length (filter (\<lambda>t. amount t < 0) (t # ts))))"
    by (cases "sumValues counts") simp_all
  with ih k s show ?case by simp
qed

text \<open>
  Claim C10. For every sequence of transactions whose \<open>type\<close> is one of the ten category
  identifiers, as is the case for \<open>transaction_details\<close> of every summary, the counts
  returned by \<open>getTransactionCounts\<close> have the ten categories as keys and add up to
  \<open>getExpenditureTransactionCount\<close> of the sequence, the number of transactions with a
  negative amount.
\<close>

theorem counts_sum_expenditure_count:
  fixes ts :: "('a::{zero,plus,ord}) Transaction list"
    and raws :: "'a RawTransaction list"
  shows "((\<forall>t \<in> set ts. type t \<in> set CATEGORIES) \<longrightarrow>
            map fst (getTransactionCounts ts) = CATEGORIES \<and>
            sumValues (getTransactionCounts ts) = Num (getExpenditureTransactionCount ts))
       \<and> (\<forall>t \<in> set (transaction_details (analyzeTransactions getTime raws ib)).
            type t \<in> set CATEGORIES)"
proof -
  have 1: "map fst (getTransactionCounts ts) = CATEGORIES \<and>
           sumValues (getTransactionCounts ts) = Num (getExpenditureTransactionCount ts)"
    if "\<forall>t \<in> set ts. type t \<in> set CATEGORIES"
  proof -
    from that have "\<forall>t \<in> set ts. type t \<in> fst ` set (zeroByCategory :: nat dict)"
      by (simp add: init_keys)
    from foldl_countTransaction [OF this] show ?thesis
      by (simp add: getTransactionCounts_def getExpenditureTransactionCount_def
            keys_zeroByCategory sumValues_zeroByCategory)
  qed
  have 2: "\<forall>t \<in> set (transaction_details (analyzeTransactions getTime raws ib)).
            type t \<in> set CATEGORIES"
    by (simp add: transaction_details_eq types_sorted_in_CATEGORIES)
  from 1 2 show ?thesis by blast
qed

theorem counts_sum_expenditure_count_witness:
  "list_all (\<lambda>t. type t \<in> set CATEGORIES) (map toTransaction sampleRaws) \<and>
   sumValues (getTransactionCounts (map toTransaction sampleRaws)) = Num 1 \<and>
   getExpenditureTransactionCount (map toTransaction sampleRaws) = 1 \<and>
   map_of (getTransactionCounts (map toTransaction sampleRaws)) ''food'' = Some (Num 1)"
proof -
  have h: "\<forall>t \<in> set (map toTransaction sampleRaws). type t \<in> set CATEGORIES"
    by (simp add: type_toTransaction)
  have e: "getExpenditureTransactionCount (map toTransaction sampleRaws) = 1"
    by code_simp
  have f: "map_of (getTransactionCounts (map toTransaction sampleRaws)) ''food'' = Some (Num 1)"
    by code_simp
  from counts_sum_expenditure_count [of "map toTransaction sampleRaws" sampleGetTime sampleRaws None] h
  have "sumValues (getTransactionCounts (map toTransaction sampleRaws)) =
          Num (getExpenditureTransactionCount (map toTransaction sampleRaws))"
    by blast
  with h e f show ?thesis by (simp add: list_all_iff)
qed

section \<open>Transactions of amount zero\<close>

lemma add_assign_doubles:
  assumes "\<forall>k x. (k, Num x) \<in> set d \<longrightarrow> isDouble x"
  shows "\<forall>k x. (k, Num x) \<in> set (add_assign key (v::double) d) \<longrightarrow> isDouble x"
  using assms
proof (induction d)
  case Nil
  then show ?case by simp
next
  case (Cons p d)
  obtain k n where p: "p = (k, n)" by (cases p)
  show ?case
  proof (cases "k = key")
    case True
    with Cons.prems p show ?thesis by (cases n) (auto simp: isDouble_add)
  next
    case False
    with Cons p show ?thesis by auto
  qed
qed

lemma add_assign_zero_double:
  assumes "key \<in> fst ` set d" and "\<forall>k x. (k, Num x) \<in> set d \<longrightarrow> isDouble x"
  shows "add_assign key (0::double) d = d"
  using assms
proof (induction d)
  case Nil
  then show ?case by simp
next
  case (Cons p d)
  obtain k n where p: "p = (k, n)" by (cases p)
  show ?case
  proof (cases "k = key")
    case True
    with Cons.prems p show ?thesis by (cases n) (auto simp: double_add_zero)
  next
    case False
    with Cons p show ?thesis by auto
  qed
qed

lemma processTransaction_doubles:
  assumes "isDouble (totalExpenditure acc)"
    and "\<forall>k x. (k, Num x) \<in> set (expenditureByCategory acc) \<longrightarrow> isDouble x"
  shows "isDouble (totalExpenditure (processTransaction acc t)) \<and>
         (\<forall>k x. (k, Num x) \<in> set (expenditureByCategory (processTransaction acc t))
            \<longrightarrow> isDouble x)"
  using assms add_assign_doubles [OF assms(2)]
  by (simp add: processTransaction_def isDouble_add)

lemma foldl_processTransaction_doubles:
  assumes "isDouble (totalExpenditure acc)"
    and "\<forall>k x. (k, Num x) \<in> set (expenditureByCategory acc) \<longrightarrow> isDouble x"
  shows "isDouble (totalExpenditure (foldl processTransaction acc ts)) \<and>
         (\<forall>k x. (k, Num x) \<in> set (expenditureByCategory (foldl processTransaction acc ts))
            \<longrightarrow> isDouble x)"
  using assms
proof (induction ts arbitrary: acc)
  case Nil
  then show ?case by simp
next
  case (Cons t ts)
  from processTransaction_doubles [OF Cons.prems, of t] Cons.IH [of "processTransaction acc t"]
  show ?case by simp
qed

lemma initialTotals_doubles:
  "isDouble (totalExpenditure (initialTotals :: double totals))"
  "\<forall>k x. (k, Num x) \<in> set (expenditureByCategory (initialTotals :: double totals))
     \<longrightarrow> isDouble x"
  by (auto simp: initialTotals_def zeroByCategory_def isDouble_zero)

text \<open>
  Claim C6. Whenever the loop of \<open>analyzeTransactions\<close> reaches a transaction whose
  amount is \<open>0\<close>, it takes the expenditure branch: the amount is added to
  \<open>totalExpenditure\<close> and to the entry of the transaction's category, not to
  \<open>totalIncome\<close>, and the step leaves all three as they are, so the totals and the
  entries of the summary are those of the run without that transaction. The three views
  skip it: \<open>getTransactionCounts\<close>, \<open>getIncomeTransactionCount\<close> and
  \<open>getExpenditureTransactionCount\<close> give the same result with and without it.
\<close>

theorem zero_amount_treatment:
  fixes raws :: "double RawTransaction list"
  assumes "transaction_details (analyzeTransactions getTime raws ib) = pre @ t # post"
    and "amount t = 0"
  shows "processTransaction (foldl processTransaction initialTotals pre) t =
           (foldl processTransaction initialTotals pre)
             \<lparr>totalExpenditure :=
                totalExpenditure (foldl processTransaction initialTotals pre) + amount t,
              expenditureByCategory :=
                add_assign (type t) (amount t)
                  (expenditureByCategory (foldl processTransaction initialTotals pre))\<rparr>
       \<and> processTransaction (foldl processTransaction initialTotals pre) t =
           foldl processTransaction initialTotals pre
       \<and> total_income (analyzeTransactions getTime raws ib) =
           totalIncome (foldl processTransaction initialTotals (pre @ post))
       \<and> total_expenditure (analyzeTransactions getTime raws ib) =
           totalExpenditure (foldl processTransaction initialTotals (pre @ post))
       \<and> expenditure_by_category (analyzeTransactions getTime raws ib) =
           expenditureByCategory (foldl processTransaction initialTotals (pre @ post))
       \<and> countTransaction counts t = counts
       \<and> getTransactionCounts (transaction_details (analyzeTransactions getTime raws ib)) =
           getTransactionCounts (pre @ post)
       \<and> getIncomeTransactionCount (transaction_details (analyzeTransactions getTime raws ib)) =
           getIncomeTransactionCount (pre @ post)
       \<and> getExpenditureTransactionCount (transaction_details (analyzeTransactions getTime raws ib)) =
           getExpenditureTransactionCount (pre @ post)"
proof -
  let ?r = "analyzeTransactions getTime raws ib"
  define acc where "acc = foldl processTransaction (initialTotals :: double totals) pre"
  have nz: "\<not> 0 < amount t" "\<not> amount t < 0"
    using assms(2) by (simp_all add: double_zero_not_less)
  have types: "\<forall>t' \<in> set (pre @ t # post). type t' \<in> set CATEGORIES"
    using types_details_in_CATEGORIES [of getTime raws ib] by (simp only: assms(1))
  have pre_keys: "\<forall>t' \<in> set pre. type t' \<in> fst ` set (expenditureByCategory initialTotals)"
    using types by (simp add: initialTotals_def init_keys)
  have keys: "map fst (expenditureByCategory acc) = CATEGORIES"
    unfolding acc_def using foldl_processTransaction_keys [OF pre_keys]
    by (simp add: initialTotals_def keys_zeroByCategory)
  then have "fst ` set (expenditureByCategory acc) = set CATEGORIES" by (metis set_map)
  with types have key: "type t \<in> fst ` set (expenditureByCategory acc)" by simp
  from foldl_processTransaction_doubles [OF initialTotals_doubles, of pre]
  have dt: "isDouble (totalExpenditure acc)"
    and de: "\<forall>k x. (k, Num x) \<in> set (expenditureByCategory acc) \<longrightarrow> isDouble x"
    by (simp_all add: acc_def)
  have 1: "processTransaction acc t =
           acc\<lparr>totalExpenditure := totalExpenditure acc + amount t,
               expenditureByCategory :=
                 add_assign (type t) (amount t) (expenditureByCategory acc)\<rparr>"
    using nz by (simp add: processTransaction_def)
  have 2: "processTransaction acc t = acc"
    unfolding 1 assms(2)
    by (simp add: double_add_zero [OF dt] add_assign_zero_double [OF key de])
  have fold: "foldl processTransaction initialTotals (pre @ t # post) =
              foldl processTransaction initialTotals (pre @ post)"
    using 2 by (simp add: acc_def)
  have 3: "total_income ?r = totalIncome (foldl processTransaction initialTotals (pre @ post))"
    unfolding analyze_initialTotals(1) assms(1) fold ..
  have 4: "total_expenditure ?r =
           totalExpenditure (foldl processTransaction initialTotals (pre @ post))"
    unfolding analyze_initialTotals(2) assms(1) fold ..
  have 5: "expenditure_by_category ?r =
           expenditureByCategory (foldl processTransaction initialTotals (pre @ post))"
    unfolding analyze_initialTotals(3) assms(1) fold ..
  have skip: "countTransaction c t = c" for c
    using nz by (simp add: countTransaction_def)
  have 6: "countTransaction counts t = counts" by (rule skip)
  have 7: "getTransactionCounts (transaction_details ?r) = getTransactionCounts (pre @ post)"
    unfolding assms(1) by (simp add: getTransactionCounts_def skip)
  have 8: "getIncomeTransactionCount (transaction_details ?r) =
           getIncomeTransactionCount (pre @ post)"
    unfolding assms(1) using nz by (simp add: getIncomeTransactionCount_def)
  have 9: "getExpenditureTransactionCount (transaction_details ?r) =
           getExpenditureTransactionCount (pre @ post)"
    unfolding assms(1) using nz by (simp add: getExpenditureTransactionCount_def)
  from 1 2 3 4 5 6 7 8 9 show ?thesis unfolding acc_def by blast
qed

theorem zero_amount_treatment_witness:
  "transaction_details (analyzeTransactions sampleGetTime zeroRaws None) =
     [\<lparr>date = ''2024-01-01'', description = ''Coffee'', amount = Finite (- 1 / 2),
       type = ''food''\<rparr>]
     @ \<lparr>date = ''2024-01-05'', description = ''Netflix subscription'', amount = Finite 0,
         type = ''leisure''\<rparr>
     # [\<lparr>date = ''2024-01-05'', description = ''Payroll Deposit'', amount = Finite 2000,
         type = ''transfer''\<rparr>] \<and>
   amount \<lparr>date = ''2024-01-05'', description = ''Netflix subscription'', amount = Finite 0,
           type = ''leisure''\<rparr> = 0 \<and>
   total_expenditure (analyzeTransactions sampleGetTime zeroRaws None) =
     totalExpenditure (foldl processTransaction initialTotals
       ([\<lparr>date = ''2024-01-01'', description = ''Coffee'', amount = Finite (- 1 / 2),
          type = ''food''\<rparr>]
        @ [\<lparr>date = ''2024-01-05'', description = ''Payroll Deposit'', amount = Finite 2000,
            type = ''transfer''\<rparr>])) \<and>
   getIncomeTransactionCount (transaction_details (analyzeTransactions sampleGetTime zeroRaws None)) =
     getIncomeTransactionCount
       ([\<lparr>date = ''2024-01-01'', description = ''Coffee'', amount = Finite (- 1 / 2),
          type = ''food''\<rparr>]
        @ [\<lparr>date = ''2024-01-05'', description = ''Payroll Deposit'', amount = Finite 2000,
            type = ''transfer''\<rparr>]) \<and>
   getExpenditureTransactionCount (transaction_details (analyzeTransactions sampleGetTime zeroRaws None)) =
     getExpenditureTransactionCount
       ([\<lparr>date = ''2024-01-01'', description = ''Coffee'', amount = Finite (- 1 / 2),
          type = ''food''\<rparr>]
        @ [\<lparr>date = ''2024-01-05'', description = ''Payroll Deposit'', amount = Finite 2000,
            type = ''transfer''\<rparr>]) \<and>
   getTransactionCounts (transaction_details (analyzeTransactions sampleGetTime zeroRaws None)) =
     getTransactionCounts
       ([\<lparr>date = ''2024-01-01'', description = ''Coffee'', amount = Finite (- 1 / 2),
          type = ''food''\<rparr>]
        @ [\<lparr>date = ''2024-01-05'', description = ''Payroll Deposit'', amount = Finite 2000,
            type = ''transfer''\<rparr>])"
proof -
  have d: "transaction_details (analyzeTransactions sampleGetTime zeroRaws None) =
     [\<lparr>date = ''2024-01-01'', description = ''Coffee'', amount = Finite (- 1 / 2),
       type = ''food''\<rparr>]
     @ \<lparr>date = ''2024-01-05'', description = ''Netflix subscription'', amount = Finite 0,
         type = ''leisure''\<rparr>
     # [\<lparr>date = ''2024-01-05'', description = ''Payroll Deposit'', amount = Finite 2000,
         type = ''transfer''\<rparr>]"
    unfolding transaction_details_eq by code_simp
  have z: "amount \<lparr>date = ''2024-01-05'', description = ''Netflix subscription'',
                   amount = Finite 0, type = ''leisure''\<rparr> = 0"
    by (simp add: zero_double_def)
  from zero_amount_treatment [OF d z, of zeroByCategory] d z show ?thesis by blast
qed

end
